theory Spec2Isabelle
  imports Complex_Main "HOL-Library.Sublist"
begin

section \<open>JavaScript values used by the endpoint\<close>

text \<open>
  Optional JSON string fields are \<open>string option\<close>: \<open>None\<close> is an absent
  (undefined or null) field.  A string is truthy when it is present and non-empty.
\<close>

definition truthy :: "string option \<Rightarrow> bool" where
  "truthy v = (case v of None \<Rightarrow> False | Some s \<Rightarrow> s \<noteq> [])"

text \<open>\<open>x || null\<close> on an optional string.\<close>

definition or_null :: "string option \<Rightarrow> string option" where
  "or_null v = (if truthy v then v else None)"

text \<open>
  A JSON field that is printed by a template string: absent, null or a string.
  The template prints \<open>undefined\<close>, \<open>null\<close> or the string itself.
\<close>

datatype jstext = Undefined | Null | Text string

definition template_text :: "jstext \<Rightarrow> string" where
  "template_text v =
     (case v of Undefined \<Rightarrow> ''undefined'' | Null \<Rightarrow> ''null'' | Text s \<Rightarrow> s)"

text \<open>
  A JavaScript \<open>Date\<close> is its time value in milliseconds; \<open>None\<close> is the
  Invalid Date (time value NaN).  \<open>new Date(v)\<close> clips the time value to
  the range of \<open>\<plusminus>8.64e15\<close> milliseconds.
\<close>

type_synonym jsdate = "int option"

definition newDate :: "int option \<Rightarrow> jsdate" where
  "newDate v = (case v of None \<Rightarrow> None
     | Some ms \<Rightarrow> if \<bar>ms\<bar> \<le> 8640000000000000 then Some ms else None)"

text \<open>
  The runtime's own \<open>parseInt\<close> and \<open>Date.parse\<close> are parameters of the model
  (\<open>None\<close> is NaN), as is the status-to-code table of the error library.
\<close>

record builtins =
  parseInt :: "string \<Rightarrow> int option"
  dateParse :: "string \<Rightarrow> int option"
  indiekitCode :: "nat \<Rightarrow> string option"

text \<open>\<open>String.prototype.includes\<close>.\<close>

primrec str_includes :: "string \<Rightarrow> string \<Rightarrow> bool" where
  "str_includes [] sub = (sub = [])"
| "str_includes (c # cs) sub = (prefix sub (c # cs) \<or> str_includes cs sub)"

text \<open>\<open>Array.prototype.indexOf\<close>: \<open>-1\<close> when the element is absent.\<close>

fun indexOf :: "'a list \<Rightarrow> 'a \<Rightarrow> int" where
  "indexOf [] x = -1"
| "indexOf (y # ys) x =
     (if y = x then 0
      else (let r = indexOf ys x in if r < 0 then -1 else r + 1))"

text \<open>\<open>Array.prototype.slice(start, end)\<close>: a negative index counts from the end.\<close>

definition js_slice :: "'a list \<Rightarrow> int \<Rightarrow> int \<Rightarrow> 'a list" where
  "js_slice xs start fin =
     (let n = int (length xs);
          k = (if start < 0 then max (n + start) 0 else min start n);
          e = (if fin < 0 then max (n + fin) 0 else min fin n)
      in take (nat (e - k)) (drop (nat k) xs))"

section \<open>Upstream track objects (lib/utils.js)\<close>

datatype artist_field =
    ArtistObj "string option" "string option" "string option"
  | ArtistStr string

datatype album_field =
    AlbumObj "string option" "string option"
  | AlbumStr string

datatype date_input =
    DateObj "string option"
  | DateStr string
  | DateVal jsdate

record img =
  img_size :: "string option"
  img_text :: "string option"

record track =
  name :: jstext
  url :: "string option"
  mbid :: "string option"
  artist :: "artist_field option"
  album :: "album_field option"
  image_list :: "img list option"
  date :: "date_input option"
  loved :: "string option"
  attr_nowplaying :: "string option"

text \<open>
  In \<open>ArtistObj n t m\<close> the fields are \<open>name\<close>, \<open>#text\<close> and \<open>mbid\<close>; in
  \<open>AlbumObj t m\<close> they are \<open>#text\<close> and \<open>mbid\<close>; in \<open>DateObj u\<close> the field is
  \<open>uts\<close>.  \<open>image_list\<close> is \<open>None\<close> when \<open>image\<close> is absent or is not an array, and
  \<open>attr_nowplaying\<close> is \<open>track["@attr"]?.nowplaying\<close>.
\<close>

fun getArtistName :: "track \<Rightarrow> string" where
  "getArtistName t =
     (case artist t of
        None \<Rightarrow> ''Unknown Artist''
      | Some (ArtistObj n tx m) \<Rightarrow>
          (if truthy n then the n
           else if truthy tx then the tx
           else ''Unknown Artist'')
      | Some (ArtistStr s) \<Rightarrow> s)"

fun getAlbumName :: "track \<Rightarrow> string option" where
  "getAlbumName t =
     (case album t of
        None \<Rightarrow> None
      | Some (AlbumObj tx m) \<Rightarrow> (if truthy tx then tx else None)
      | Some (AlbumStr s) \<Rightarrow> (if s = [] then None else Some s))"

definition artist_mbid :: "track \<Rightarrow> string option" where
  "artist_mbid t = (case artist t of Some (ArtistObj n tx m) \<Rightarrow> or_null m | _ \<Rightarrow> None)"

definition album_mbid :: "track \<Rightarrow> string option" where
  "album_mbid t = (case album t of Some (AlbumObj tx m) \<Rightarrow> or_null m | _ \<Rightarrow> None)"

definition getTrackUrl :: "track \<Rightarrow> string option" where
  "getTrackUrl t = or_null (url t)"

definition getMbid :: "track \<Rightarrow> string option" where
  "getMbid t = or_null (mbid t)"

subsection \<open>Cover URL selection\<close>

definition sizePriority :: "string list" where
  "sizePriority = [''extralarge'', ''large'', ''medium'', ''small'']"

text \<open>The \<open>for (const size of orderedSizes)\<close> loop of \<open>getCoverUrl\<close>.\<close>

fun getCoverUrl_loop :: "img list \<Rightarrow> string list \<Rightarrow> string option" where
  "getCoverUrl_loop imgs [] = None"
| "getCoverUrl_loop imgs (s # ss) =
     (case find (\<lambda>i. img_size i = Some s) imgs of
        Some i \<Rightarrow> (if truthy (img_text i) then img_text i else getCoverUrl_loop imgs ss)
      | None \<Rightarrow> getCoverUrl_loop imgs ss)"

definition getCoverUrl :: "track \<Rightarrow> string \<Rightarrow> string option" where
  "getCoverUrl t preferredSize =
     (case image_list t of
        None \<Rightarrow> None
      | Some imgs \<Rightarrow>
          (let startIndex = indexOf sizePriority preferredSize;
               orderedSizes =
                 js_slice sizePriority startIndex (int (length sizePriority)) @
                 js_slice sizePriority 0 startIndex
           in case getCoverUrl_loop imgs orderedSizes of
                Some u \<Rightarrow> Some u
              | None \<Rightarrow>
                  (case find (\<lambda>i. truthy (img_text i)) imgs of
                     Some anyImg \<Rightarrow> img_text anyImg
                   | None \<Rightarrow> None)))"

subsection \<open>Timestamps and playing status\<close>

text \<open>
  \<open>parseDate\<close> reads the wall clock (\<open>new Date()\<close>) when its input is falsy; the
  reading is the parameter \<open>now\<close>.  A plain object without a usable \<open>uts\<close> is
  handed to \<open>new Date\<close>, which yields the Invalid Date.
\<close>

definition parseDate :: "builtins \<Rightarrow> int \<Rightarrow> date_input option \<Rightarrow> jsdate" where
  "parseDate B now dateInput =
     (case dateInput of
        None \<Rightarrow> Some now
      | Some (DateStr s) \<Rightarrow> (if s = [] then Some now else newDate (dateParse B s))
      | Some (DateVal d) \<Rightarrow> d
      | Some (DateObj u) \<Rightarrow>
          (if truthy u
           then newDate (map_option (\<lambda>n. n * 1000) (parseInt B (the u)))
           else None))"

datatype playing_status = NowPlaying | RecentlyPlayed

text \<open>
  \<open>getPlayingStatus\<close> reads the clock twice: inside \<open>parseDate\<close> (\<open>tparse\<close>) and
  for \<open>now\<close>.  Every comparison with NaN is false, so an Invalid Date gives null.
\<close>

definition getPlayingStatus ::
  "builtins \<Rightarrow> int \<Rightarrow> int \<Rightarrow> track \<Rightarrow> playing_status option" where
  "getPlayingStatus B tparse now t =
     (if attr_nowplaying t = Some ''true'' then Some NowPlaying
      else
        (case parseDate B tparse (date t) of
           None \<Rightarrow> None
         | Some d \<Rightarrow>
             (let diffMs = now - d;
                  diffMins = (of_int diffMs :: rat) / 60000
              in if diffMins < 60 then Some NowPlaying
                 else if diffMins < 24 * 60 then Some RecentlyPlayed
                 else None)))"

section \<open>Stats cache (lib/sync.js)\<close>

text \<open>
  The module variables \<open>cachedStats\<close> and \<open>cachedStatsTime\<close>.  A snapshot is the
  object built by \<open>getAllStats\<close>, hence always truthy; \<open>None\<close> is the initial null.
\<close>

record 's stats_cache =
  cachedStats :: "'s option"
  cachedStatsTime :: "int option"

definition STATS_CACHE_TTL :: int where
  "STATS_CACHE_TTL = 300000"

definition initial_cache :: "'s stats_cache" where
  "initial_cache = \<lparr>cachedStats = None, cachedStatsTime = None\<rparr>"

definition getCachedStats :: "int \<Rightarrow> 's stats_cache \<Rightarrow> 's option" where
  "getCachedStats now c =
     (if cachedStats c = None then None
      else if (case cachedStatsTime c of
                 None \<Rightarrow> False
               | Some t \<Rightarrow> t \<noteq> 0 \<and> now - t > STATS_CACHE_TTL)
      then cachedStats c
      else cachedStats c)"

definition setCachedStats :: "int \<Rightarrow> 's \<Rightarrow> 's stats_cache \<Rightarrow> 's stats_cache" where
  "setCachedStats now stats c = \<lparr>cachedStats = Some stats, cachedStatsTime = Some now\<rparr>"

text \<open>The accessor as the specification words it: the current slot, nothing else.\<close>

definition read_slot_spec :: "'s stats_cache \<Rightarrow> 's option" where
  "read_slot_spec c = cachedStats c"

section \<open>Remote client (lib/lastfm-client.js)\<close>

text \<open>Decimal rendering of numbers, as \<open>String(n)\<close> and template strings do.\<close>

definition digit_char :: "nat \<Rightarrow> char" where
  "digit_char n = ''0123456789'' ! n"

function string_of_nat :: "nat \<Rightarrow> string" where
  "string_of_nat n =
     (if n < 10 then [digit_char n]
      else string_of_nat (n div 10) @ [digit_char (n mod 10)])"
  by pat_completeness auto
termination
  by (relation "measure id") auto

definition string_of_int :: "int \<Rightarrow> string" where
  "string_of_int i =
     (if i < 0 then CHR ''-'' # string_of_nat (nat (- i)) else string_of_nat (nat i))"

text \<open>
  A thrown value: its \<open>message\<close>, and the \<open>status\<close> and \<open>code\<close> properties that
  the controllers read (absent on a plain \<open>Error\<close>).
\<close>

record js_error =
  err_message :: string
  err_status :: "nat option"
  err_code :: "string option"

definition plain_error :: "string \<Rightarrow> js_error" where
  "plain_error m = \<lparr>err_message = m, err_status = None, err_code = None\<rparr>"

text \<open>
  \<open>new IndiekitError(message, {status})\<close>: the error library keeps the message and
  the status it is given and derives the code from the status.
\<close>

definition IndiekitError :: "builtins \<Rightarrow> string \<Rightarrow> nat \<Rightarrow> js_error" where
  "IndiekitError B m st =
     \<lparr>err_message = m, err_status = Some st, err_code = indiekitCode B st\<rparr>"

text \<open>The parsed JSON body of a \<open>user.getRecentTracks\<close> answer.\<close>

record recenttracks =
  rt_track :: "track list option"
  rt_totalPages :: "string option"

record api_data =
  data_error :: "nat option"
  data_message :: jstext
  data_recenttracks :: "recenttracks option"

text \<open>
  An HTTP response of the upstream.  \<open>body_json\<close> is the outcome of
  \<open>response.json()\<close>: the parsed body, or the error that the parser throws.
\<close>

record http_response =
  ok :: bool
  status :: nat
  statusText :: string
  content_type :: "string option"
  body_json :: "js_error + api_data"

text \<open>
  The network: the global \<open>fetch\<close> either rejects or resolves with a response.
  \<open>IndiekitError.fromFetch\<close> belongs to the error library; the error it builds from
  a response is a parameter.
\<close>

datatype net_outcome = NetFail js_error | NetResponse http_response

text \<open>
  The request URL is determined by the method, the API key, the user and the
  stringified parameters; this tuple is the cache key.
\<close>

type_synonym request = "string \<times> string \<times> string \<times> (string \<times> string) list"

record client_env =
  net :: "request \<Rightarrow> net_outcome"
  fromFetch :: "http_response \<Rightarrow> js_error"

text \<open>
  A \<open>LastFmClient\<close> instance.  \<open>sent\<close> records the requests handed to the
  network through this instance, oldest first.
\<close>

record client =
  apiKey :: string
  username :: string
  cacheTtl :: int
  cache :: "request \<rightharpoonup> (api_data \<times> int)"
  sent :: "request list"

definition new_client :: "string \<Rightarrow> string \<Rightarrow> int option \<Rightarrow> client" where
  "new_client key user ttl =
     \<lparr>apiKey = key, username = user,
      cacheTtl = (case ttl of None \<Rightarrow> 900000 | Some t \<Rightarrow> if t = 0 then 900000 else t),
      cache = Map.empty, sent = []\<rparr>"

text \<open>
  \<open>fetch(method, params)\<close>.  \<open>now\<close> is the reading of \<open>Date.now()\<close> during the
  call.  The result is the thrown error or the data, with the updated client.
\<close>

definition fetch ::
  "builtins \<Rightarrow> client_env \<Rightarrow> int \<Rightarrow> client \<Rightarrow> string \<Rightarrow> (string \<times> string) list
     \<Rightarrow> (js_error + api_data) \<times> client" where
  "fetch B E now C method params =
     (let cacheKey = (method, apiKey C, username C, params) in
      case (case cache C cacheKey of
              Some (data, ts) \<Rightarrow> if now - ts < cacheTtl C then Some data else None
            | None \<Rightarrow> None) of
        Some data \<Rightarrow> (Inr data, C)
      | None \<Rightarrow>
          (let C1 = C\<lparr>sent := sent C @ [cacheKey]\<rparr> in
           case net E cacheKey of
             NetFail e \<Rightarrow> (Inl e, C1)
           | NetResponse r \<Rightarrow>
               (let contentType = (case content_type r of Some s \<Rightarrow> s | None \<Rightarrow> [])
                in if \<not> ok r then
                     (if \<not> str_includes contentType ''application/json''
                      then (Inl (IndiekitError B
                                  (''Last.fm API returned '' @ string_of_nat (status r) @
                                   '': '' @ statusText r)
                                  (status r)), C1)
                      else (Inl (fromFetch E r), C1))
                   else if \<not> str_includes contentType ''application/json''
                   then (Inl (plain_error ''Last.fm API returned non-JSON response''), C1)
                   else
                     (case body_json r of
                        Inl e \<Rightarrow> (Inl e, C1)
                      | Inr data \<Rightarrow>
                          (if (case data_error data of Some n \<Rightarrow> n \<noteq> 0 | None \<Rightarrow> False)
                           then (Inl (plain_error
                                   (''Last.fm API error '' @
                                    string_of_nat (the (data_error data)) @ '': '' @
                                    template_text (data_message data))), C1)
                           else (Inr data,
                                 C1\<lparr>cache := (cache C1)(cacheKey \<mapsto> (data, now))\<rparr>))))))"

text \<open>
  \<open>getRecentTracks(page, limit, from, to)\<close>: a falsy \<open>from\<close> or \<open>to\<close> (null or 0)
  is left out of the parameters.
\<close>

definition getRecentTracks ::
  "builtins \<Rightarrow> client_env \<Rightarrow> int \<Rightarrow> client \<Rightarrow> nat \<Rightarrow> nat \<Rightarrow> int option \<Rightarrow> int option
     \<Rightarrow> (js_error + api_data) \<times> client" where
  "getRecentTracks B E now C page limit from to =
     fetch B E now C ''user.getRecentTracks''
       ([(''page'', string_of_nat page),
         (''limit'', string_of_nat (min limit 200)),
         (''extended'', ''1'')] @
        (case from of Some f \<Rightarrow> if f = 0 then [] else [(''from'', string_of_int f)]
                    | None \<Rightarrow> []) @
        (case to of Some f \<Rightarrow> if f = 0 then [] else [(''to'', string_of_int f)]
                  | None \<Rightarrow> []))"

text \<open>
  The request that \<open>getRecentTracks(p, 200, from)\<close> hands to \<open>fetch\<close>; the parsed
  body that the upstream holds for a request, if it answers with one; and the
  entries of that body's page that carry no truthy now-playing marker.
\<close>

definition page_request :: "client \<Rightarrow> nat \<Rightarrow> int option \<Rightarrow> request" where
  "page_request C p from =
     (''user.getRecentTracks'', apiKey C, username C,
      [(''page'', string_of_nat p), (''limit'', ''200''), (''extended'', ''1'')] @
      (case from of Some f \<Rightarrow> if f = 0 then [] else [(''from'', string_of_int f)]
                  | None \<Rightarrow> []))"

definition served :: "client_env \<Rightarrow> request \<Rightarrow> api_data option" where
  "served E q =
     (case net E q of
        NetFail e \<Rightarrow> None
      | NetResponse r \<Rightarrow> (case body_json r of Inl e \<Rightarrow> None | Inr data \<Rightarrow> Some data))"

definition page_of :: "api_data \<Rightarrow> track list" where
  "page_of response =
     (case data_recenttracks response of
        None \<Rightarrow> []
      | Some rt \<Rightarrow> (case rt_track rt of None \<Rightarrow> [] | Some ts \<Rightarrow> ts))"

definition completed_plays :: "client_env \<Rightarrow> request \<Rightarrow> track list" where
  "completed_plays E q =
     (case served E q of
        None \<Rightarrow> []
      | Some response \<Rightarrow> filter (\<lambda>t. \<not> truthy (attr_nowplaying t)) (page_of response))"

text \<open>
  The body shared by both pagination loops: the tracks of a page without the
  entries whose \<open>@attr.nowplaying\<close> is truthy, and
  \<open>parseInt(totalPages) || 1\<close>.
\<close>

definition page_tracks :: "api_data \<Rightarrow> track list" where
  "page_tracks response =
     (case data_recenttracks response of
        None \<Rightarrow> []
      | Some rt \<Rightarrow> (case rt_track rt of None \<Rightarrow> [] | Some ts \<Rightarrow> ts))"

definition scrobbledTracks :: "api_data \<Rightarrow> track list" where
  "scrobbledTracks response =
     filter (\<lambda>t. \<not> truthy (attr_nowplaying t)) (page_tracks response)"

definition totalPages :: "builtins \<Rightarrow> api_data \<Rightarrow> int" where
  "totalPages B response =
     (case data_recenttracks response of
        None \<Rightarrow> 1
      | Some rt \<Rightarrow>
          (case rt_totalPages rt of
             None \<Rightarrow> 1
           | Some s \<Rightarrow>
               (case parseInt B s of
                  None \<Rightarrow> 1
                | Some n \<Rightarrow> if n = 0 then 1 else n)))"

subsection \<open>Pagination loops\<close>

text \<open>
  \<open>getAllRecentTracks(maxPages)\<close>: the loop \<open>while (hasMore && page <= maxPages)\<close>.
  \<open>clk p\<close> is the clock reading during the request for page \<open>p\<close>.
\<close>

function getAllRecentTracks_loop ::
  "builtins \<Rightarrow> client_env \<Rightarrow> (nat \<Rightarrow> int) \<Rightarrow> nat \<Rightarrow> bool \<Rightarrow> nat \<Rightarrow> track list \<Rightarrow> client
     \<Rightarrow> (js_error + track list) \<times> client" where
  "getAllRecentTracks_loop B E clk maxPages hasMore page allTracks C =
     (if hasMore \<and> page \<le> maxPages then
        (case getRecentTracks B E (clk page) C page 200 None None of
           (Inl e, C') \<Rightarrow> (Inl e, C')
         | (Inr response, C') \<Rightarrow>
             getAllRecentTracks_loop B E clk maxPages
               (int page < totalPages B response) (page + 1)
               (allTracks @ scrobbledTracks response) C')
      else (Inr allTracks, C))"
  by pat_completeness auto
termination
  by (relation "measure (\<lambda>(B, E, clk, maxPages, hasMore, page, allTracks, C).
        Suc maxPages - page)") auto

definition getAllRecentTracks ::
  "builtins \<Rightarrow> client_env \<Rightarrow> (nat \<Rightarrow> int) \<Rightarrow> client \<Rightarrow> nat
     \<Rightarrow> (js_error + track list) \<times> client" where
  "getAllRecentTracks B E clk C maxPages =
     getAllRecentTracks_loop B E clk maxPages True 1 [] C"

text \<open>
  \<open>getNewScrobbles(since)\<close>: the loop \<open>while (hasMore)\<close> has no page bound, so
  it need not return; \<open>None\<close> is the run that never ends.
\<close>

partial_function (option) getNewScrobbles_loop ::
  "builtins \<Rightarrow> client_env \<Rightarrow> (nat \<Rightarrow> int) \<Rightarrow> int \<Rightarrow> bool \<Rightarrow> nat \<Rightarrow> track list \<Rightarrow> client
     \<Rightarrow> ((js_error + track list) \<times> client) option" where
  "getNewScrobbles_loop B E clk fromTimestamp hasMore page newScrobbles C =
     (if hasMore then
        (case getRecentTracks B E (clk page) C page 200 (Some fromTimestamp) None of
           (Inl e, C') \<Rightarrow> Some (Inl e, C')
         | (Inr response, C') \<Rightarrow>
             getNewScrobbles_loop B E clk fromTimestamp
               (int page < totalPages B response) (page + 1)
               (newScrobbles @ scrobbledTracks response) C')
      else Some (Inr newScrobbles, C))"

definition getNewScrobbles ::
  "builtins \<Rightarrow> client_env \<Rightarrow> (nat \<Rightarrow> int) \<Rightarrow> client \<Rightarrow> int
     \<Rightarrow> ((js_error + track list) \<times> client) option" where
  "getNewScrobbles B E clk C since =
     getNewScrobbles_loop B E clk (since div 1000) True 1 [] C"

declare getAllRecentTracks_loop.simps [simp del]
declare string_of_nat.simps [simp del]

section \<open>Sync engine (lib/sync.js)\<close>

text \<open>A document of the \<open>scrobbles\<close> collection, as \<open>transformScrobble\<close> builds it.\<close>

record doc =
  lastfmId :: string
  trackTitle :: "string option"
  trackUrl :: "string option"
  artistName :: string
  artistMbid :: "string option"
  albumTitle :: "string option"
  albumMbid :: "string option"
  mbid_d :: "string option"
  coverUrl :: "string option"
  loved_d :: bool
  scrobbledAt :: jsdate
  syncedAt :: jsdate

text \<open>
  \<open>transformScrobble\<close> reads the clock in \<open>parseDate\<close> (\<open>tparse\<close>) and for
  \<open>syncedAt\<close> (\<open>tsync\<close>).  An Invalid Date prints as \<open>NaN\<close> in the template
  string.  In a document a title that is absent or null is \<open>None\<close>: the driver
  stores either as null.
\<close>

definition transformScrobble :: "builtins \<Rightarrow> int \<Rightarrow> int \<Rightarrow> track \<Rightarrow> doc" where
  "transformScrobble B tparse tsync scrobble =
     (let scrobbledAt' = parseDate B tparse (date scrobble);
          artistName' = getArtistName scrobble;
          albumTitle' = getAlbumName scrobble
      in \<lparr>lastfmId =
             artistName' @ '':'' @
             template_text (name scrobble) @ '':'' @
             (case scrobbledAt' of Some ms \<Rightarrow> string_of_int ms | None \<Rightarrow> ''NaN''),
           trackTitle = (case name scrobble of Text n \<Rightarrow> Some n | _ \<Rightarrow> None),
           trackUrl = getTrackUrl scrobble,
           artistName = artistName',
           artistMbid = artist_mbid scrobble,
           albumTitle = albumTitle',
           albumMbid = album_mbid scrobble,
           mbid_d = getMbid scrobble,
           coverUrl = getCoverUrl scrobble ''extralarge'',
           loved_d = (loved scrobble = Some ''1''),
           scrobbledAt = scrobbledAt',
           syncedAt = Some tsync\<rparr>)"

subsection \<open>The durable store\<close>

text \<open>
  The collection is the list of its documents.  \<open>same_key\<close> is the filter of the
  upsert: equal track title, artist name and play time.
\<close>

definition same_key :: "doc \<Rightarrow> doc \<Rightarrow> bool" where
  "same_key d r =
     (trackTitle r = trackTitle d \<and> artistName r = artistName d \<and>
      scrobbledAt r = scrobbledAt d)"

definition duplicate_key_error :: js_error where
  "duplicate_key_error =
     \<lparr>err_message = ''E11000 duplicate key error'', err_status = None,
      err_code = Some ''11000''\<rparr>"

text \<open>
  \<open>updateOne(filter, {$set: doc}, {upsert: true})\<close> under the two unique indexes:
  the first document matching the filter takes every field of \<open>doc\<close>; without a
  match \<open>doc\<close> is inserted.  The write is refused with code 11000 when another
  document already carries the same \<open>lastfmId\<close>.
\<close>

fun update_matching :: "doc \<Rightarrow> doc list \<Rightarrow> (js_error + doc list) option" where
  "update_matching d [] = None"
| "update_matching d (r # rs) =
     (if same_key d r
      then Some (if lastfmId d \<in> set (map lastfmId rs)
                 then Inl duplicate_key_error else Inr (d # rs))
      else (case update_matching d rs of
              None \<Rightarrow> None
            | Some (Inl e) \<Rightarrow> Some (Inl e)
            | Some (Inr rs') \<Rightarrow>
                Some (if lastfmId d = lastfmId r
                      then Inl duplicate_key_error else Inr (r # rs'))))"

definition updateOne :: "doc list \<Rightarrow> doc \<Rightarrow> js_error + doc list" where
  "updateOne coll d =
     (case update_matching d coll of
        Some res \<Rightarrow> res
      | None \<Rightarrow>
          (if lastfmId d \<in> set (map lastfmId coll)
           then Inl duplicate_key_error else Inr (coll @ [d])))"

text \<open>\<open>findOne({}, {sort: {scrobbledAt: -1}})\<close>; an Invalid Date sorts lowest.\<close>

definition date_le :: "jsdate \<Rightarrow> jsdate \<Rightarrow> bool" where
  "date_le a b =
     (case a of None \<Rightarrow> True
      | Some x \<Rightarrow> (case b of None \<Rightarrow> False | Some y \<Rightarrow> x \<le> y))"

fun findLatest :: "doc list \<Rightarrow> doc option" where
  "findLatest [] = None"
| "findLatest (d # ds) =
     (case findLatest ds of
        None \<Rightarrow> Some d
      | Some m \<Rightarrow> if date_le (scrobbledAt m) (scrobbledAt d) then Some d else Some m)"

text \<open>
  What the driver and the statistics engine may do beyond the model of the
  collection: \<open>createIndex\<close> and \<open>findOne\<close> may reject, the \<open>i\<close>-th
  \<open>updateOne\<close> of a batch may reject for a reason of its own, the settings
  lookup may reject, and \<open>getAllStats\<close> yields a snapshot or throws.
\<close>

record 's db_env =
  index_fault :: "js_error option"
  find_fault :: "js_error option"
  update_fault :: "nat \<Rightarrow> js_error option"
  settings_fault :: bool
  getAllStats :: "doc list \<Rightarrow> js_error + 's"

text \<open>
  Clock readings of one cycle: during the request for page \<open>p\<close>, during the
  transformation of the \<open>i\<close>-th item (\<open>parseDate\<close>, then \<open>syncedAt\<close>), and
  when the stats cache is written.
\<close>

record clocks =
  fetch_now :: "nat \<Rightarrow> int"
  parse_now :: "nat \<Rightarrow> int"
  synced_now :: "nat \<Rightarrow> int"
  stats_now :: int

record sync_result =
  synced :: nat
  error :: "string option"

text \<open>
  The upsert loop of \<open>syncScrobbles\<close>: \<open>synced\<close> is incremented after every
  \<open>updateOne\<close> that does not throw; a throw is caught and the loop goes on.
\<close>

fun upsert_loop ::
  "'s db_env \<Rightarrow> nat \<Rightarrow> doc list \<Rightarrow> nat \<Rightarrow> doc list \<Rightarrow> nat \<times> doc list" where
  "upsert_loop F i [] n coll = (n, coll)"
| "upsert_loop F i (d # ds) n coll =
     (case (case update_fault F i of Some e \<Rightarrow> Inl e | None \<Rightarrow> updateOne coll d) of
        Inr coll' \<Rightarrow> upsert_loop F (i + 1) ds (n + 1) coll'
      | Inl e \<Rightarrow> upsert_loop F (i + 1) ds n coll)"

definition transform_all :: "builtins \<Rightarrow> clocks \<Rightarrow> track list \<Rightarrow> doc list" where
  "transform_all B K newScrobbles =
     map (\<lambda>(i, s). transformScrobble B (parse_now K i) (synced_now K i) s)
       (enumerate 0 newScrobbles)"

text \<open>
  The local values of \<open>syncScrobbles\<close>: \<open>latestDate\<close> is
  \<open>latest?.scrobbledAt || new Date(0)\<close>, and \<open>newScrobbles\<close> is what the first-sync
  or the incremental fetch yields for it.  \<open>toISOString\<close> on an Invalid Date
  throws a RangeError with the message \<open>Invalid time value\<close>.
\<close>

definition latestDate :: "doc list \<Rightarrow> jsdate" where
  "latestDate coll =
     (case findLatest coll of None \<Rightarrow> Some 0 | Some latest \<Rightarrow> scrobbledAt latest)"

definition newScrobbles ::
  "builtins \<Rightarrow> client_env \<Rightarrow> clocks \<Rightarrow> client \<Rightarrow> int
     \<Rightarrow> ((js_error + track list) \<times> client) option" where
  "newScrobbles B E K C ms =
     (if ms = 0 then Some (getAllRecentTracks B E (fetch_now K) C 10)
      else getNewScrobbles B E (fetch_now K) C ms)"

definition syncScrobbles ::
  "builtins \<Rightarrow> client_env \<Rightarrow> 's db_env \<Rightarrow> clocks \<Rightarrow> client \<Rightarrow> doc list
     \<Rightarrow> ((js_error + sync_result) \<times> doc list \<times> client) option" where
  "syncScrobbles B E F K C coll =
     (case index_fault F of
        Some e \<Rightarrow> Some (Inl e, coll, C)
      | None \<Rightarrow>
     (case find_fault F of
        Some e \<Rightarrow> Some (Inl e, coll, C)
      | None \<Rightarrow>
     (case latestDate coll of
        None \<Rightarrow> Some (Inl (plain_error ''Invalid time value''), coll, C)
      | Some ms \<Rightarrow>
     (case newScrobbles B E K C ms of
        None \<Rightarrow> None
      | Some (Inl e, C') \<Rightarrow> Some (Inl e, coll, C')
      | Some (Inr tracks, C') \<Rightarrow>
          (if tracks = [] then Some (Inr \<lparr>synced = 0, error = None\<rparr>, coll, C')
           else
             (case upsert_loop F 0 (transform_all B K tracks) 0 coll of
                (n, coll') \<Rightarrow> Some (Inr \<lparr>synced = n, error = None\<rparr>, coll', C')))))))"

subsection \<open>One cycle\<close>

record settings =
  s_apiKey :: "string option"
  s_username :: "string option"

record database =
  scrobbles :: "doc list"
  lastfmMeta :: "settings option"

record options =
  o_apiKey :: "string option"
  o_username :: "string option"

definition getEffectiveSyncOptions :: "'s db_env \<Rightarrow> database \<Rightarrow> options \<Rightarrow> options" where
  "getEffectiveSyncOptions F db opts =
     (if settings_fault F then opts
      else
        (case lastfmMeta db of
           Some st \<Rightarrow>
             \<lparr>o_apiKey = (if truthy (s_apiKey st) then s_apiKey st else o_apiKey opts),
              o_username = (if truthy (s_username st) then s_username st else o_username opts)\<rparr>
         | None \<Rightarrow> opts))"

text \<open>
  \<open>runSync(Indiekit, options)\<close>.  The state is \<open>Indiekit.database\<close> and the stats
  cache.  Only the call of \<open>syncScrobbles\<close> stands outside a \<open>try\<close>: what it
  throws leaves \<open>runSync\<close> as \<open>Inl\<close>.
\<close>

definition runSync ::
  "builtins \<Rightarrow> client_env \<Rightarrow> 's db_env \<Rightarrow> clocks \<Rightarrow> database option \<Rightarrow> options
     \<Rightarrow> 's stats_cache
     \<Rightarrow> ((js_error + sync_result) \<times> database option \<times> 's stats_cache) option" where
  "runSync B E F K dbo opts sc =
     (case dbo of
        None \<Rightarrow> Some (Inr \<lparr>synced = 0, error = Some ''No database''\<rparr>, dbo, sc)
      | Some db \<Rightarrow>
          (let effectiveOptions = getEffectiveSyncOptions F db opts in
           if \<not> truthy (o_apiKey effectiveOptions) \<or> \<not> truthy (o_username effectiveOptions)
           then Some (Inr \<lparr>synced = 0, error = Some ''Not configured''\<rparr>, dbo, sc)
           else
             (case syncScrobbles B E F K
                     (new_client (the (o_apiKey effectiveOptions))
                        (the (o_username effectiveOptions)) (Some 60000))
                     (scrobbles db) of
                None \<Rightarrow> None
              | Some (Inl e, coll', C') \<Rightarrow> Some (Inl e, Some (db\<lparr>scrobbles := coll'\<rparr>), sc)
              | Some (Inr result, coll', C') \<Rightarrow>
                  Some (Inr result, Some (db\<lparr>scrobbles := coll'\<rparr>),
                        (case getAllStats F coll' of
                           Inr stats \<Rightarrow> setCachedStats (stats_now K) stats sc
                         | Inl err \<Rightarrow> sc)))))"


section \<open>Controllers\<close>

text \<open>An HTTP answer of a controller: status, \<open>Retry-After\<close> header, JSON body.\<close>

datatype 'p body =
    Payload 'p
  | ErrorOnly string
  | ErrorMessage string string
  | ErrorInfo string string bool
  | SyncDone nat string

record 'p answer =
  ans_status :: nat
  ans_retry_after :: "string option"
  ans_body :: "'p body"

text \<open>
  The \<open>catch\<close> block shared by the scrobbles, loved and stats controllers:
  \<open>error.status || 500\<close>, \<open>Retry-After\<close> for 503, and
  \<open>retryable: status === 503 || status === 502\<close>.
\<close>

definition controller_catch :: "js_error \<Rightarrow> 'p answer" where
  "controller_catch err =
     (let st = (case err_status err of None \<Rightarrow> 500 | Some s \<Rightarrow> if s = 0 then 500 else s)
      in \<lparr>ans_status = st,
           ans_retry_after = (if st = 503 then Some ''60'' else None),
           ans_body = ErrorInfo (err_message err)
                        (if truthy (err_code err) then the (err_code err) else ''unknown'')
                        (st = 503 \<or> st = 502)\<rparr>)"

text \<open>
  \<open>getEffectiveConfig\<close> (lib/config.js): stored settings override the plugin
  configuration; a failing lookup falls back to it.
\<close>

definition getEffectiveConfig ::
  "'s db_env \<Rightarrow> database option \<Rightarrow> options \<Rightarrow> string \<times> string" where
  "getEffectiveConfig F dbo cfg =
     (let apiKey0 = (if truthy (o_apiKey cfg) then the (o_apiKey cfg) else []);
          username0 = (if truthy (o_username cfg) then the (o_username cfg) else [])
      in case dbo of
           None \<Rightarrow> (apiKey0, username0)
         | Some db \<Rightarrow>
             (if settings_fault F then (apiKey0, username0)
              else
                (case lastfmMeta db of
                   None \<Rightarrow> (apiKey0, username0)
                 | Some st \<Rightarrow>
                     (if truthy (s_apiKey st) then the (s_apiKey st) else apiKey0,
                      if truthy (s_username st) then the (s_username st) else username0))))"

text \<open>
  \<open>scrobblesController.api\<close>: one page of recent tracks through a client of its
  own.  \<open>render\<close> stands for the formatting of the answer, which may throw too.
\<close>

definition scrobblesController_api ::
  "builtins \<Rightarrow> client_env \<Rightarrow> 's db_env \<Rightarrow> int \<Rightarrow> options option \<Rightarrow> database option
     \<Rightarrow> int option \<Rightarrow> nat \<Rightarrow> nat \<Rightarrow> (api_data \<Rightarrow> js_error + 'p) \<Rightarrow> 'p answer" where
  "scrobblesController_api B E F now lastfmConfig dbo ttl page limit render =
     (case lastfmConfig of
        None \<Rightarrow> \<lparr>ans_status = 500, ans_retry_after = None,
                  ans_body = ErrorOnly ''Not configured''\<rparr>
      | Some cfg \<Rightarrow>
          (case getEffectiveConfig F dbo cfg of
             (apiKey', username') \<Rightarrow>
          (case fst (getRecentTracks B E now (new_client apiKey' username' ttl)
                       page (min limit 200) None None) of
             Inl err \<Rightarrow> controller_catch err
           | Inr scrobblesRes \<Rightarrow>
               (case render scrobblesRes of
                  Inl err \<Rightarrow> controller_catch err
                | Inr p \<Rightarrow> \<lparr>ans_status = 200, ans_retry_after = None,
                            ans_body = Payload p\<rparr>))))"

text \<open>
  \<open>statsController.api\<close>.  \<open>db_stats\<close> is \<open>None\<close> when the route has no
  database handle, and otherwise the outcome of \<open>getAllStats\<close> on it.
\<close>

definition statsController_api ::
  "int \<Rightarrow> bool \<Rightarrow> (js_error + 's) option \<Rightarrow> 's stats_cache \<Rightarrow> 's answer" where
  "statsController_api now lastfmConfig db_stats sc =
     (if \<not> lastfmConfig
      then \<lparr>ans_status = 500, ans_retry_after = None,
            ans_body = ErrorOnly ''Not configured''\<rparr>
      else
        (case db_stats of
           Some (Inl err) \<Rightarrow> controller_catch err
         | Some (Inr stats) \<Rightarrow>
             \<lparr>ans_status = 200, ans_retry_after = None, ans_body = Payload stats\<rparr>
         | None \<Rightarrow>
             (case getCachedStats now sc of
                None \<Rightarrow>
                  \<lparr>ans_status = 503, ans_retry_after = None,
                   ans_body = ErrorMessage ''Stats not available yet''
                     ''Stats are computed during background sync. Please try again shortly.''\<rparr>
              | Some stats \<Rightarrow>
                  \<lparr>ans_status = 200, ans_retry_after = None, ans_body = Payload stats\<rparr>)))"

text \<open>
  \<open>dashboardController.sync\<close>, the on-demand trigger: it calls \<open>runSync\<close>
  whenever the configuration and the database are there.
\<close>

definition dashboard_sync ::
  "builtins \<Rightarrow> client_env \<Rightarrow> 's db_env \<Rightarrow> clocks \<Rightarrow> options option \<Rightarrow> database option
     \<Rightarrow> 's stats_cache
     \<Rightarrow> (unit answer \<times> database option \<times> 's stats_cache) option" where
  "dashboard_sync B E F K lastfmConfig dbo sc =
     (case lastfmConfig of
        None \<Rightarrow> Some (\<lparr>ans_status = 500, ans_retry_after = None,
                        ans_body = ErrorOnly ''Not configured''\<rparr>, dbo, sc)
      | Some cfg \<Rightarrow>
          (if dbo = None
           then Some (\<lparr>ans_status = 500, ans_retry_after = None,
                       ans_body = ErrorOnly ''Database not available''\<rparr>, dbo, sc)
           else
             (case runSync B E F K dbo cfg sc of
                None \<Rightarrow> None
              | Some (Inl err, dbo', sc') \<Rightarrow>
                  Some (\<lparr>ans_status = 500, ans_retry_after = None,
                         ans_body = ErrorOnly (err_message err)\<rparr>, dbo', sc')
              | Some (Inr result, dbo', sc') \<Rightarrow>
                  Some (\<lparr>ans_status = 200, ans_retry_after = None,
                         ans_body = SyncDone (synced result)
                           (''Synced '' @ string_of_nat (synced result) @ '' new scrobbles'')\<rparr>,
                        dbo', sc'))))"

section \<open>Scheduling (startSync, stopSync, the on-demand trigger)\<close>

text \<open>
  The module keeps the handle \<open>syncInterval\<close> of the interval set last and
  nothing else about running cycles.  \<open>syncInterval\<close> tells whether that handle
  is set; \<open>leaked\<close> counts the intervals whose handle a later \<open>startSync\<close> has
  overwritten, which \<open>stopSync\<close> cannot clear; \<open>initial_pending\<close> counts the
  five-second timeouts set by \<open>startSync\<close> that have not fired.  \<open>in_flight\<close>
  counts the calls of \<open>runSync\<close> that have begun and have not settled yet.
  \<open>AdminTrigger\<close> is a request to the sync route with the configuration and the
  database present, \<open>CycleSettled\<close> the end of a cycle.  Neither timer callback
  nor the route reads any of this before calling \<open>runSync\<close>.
\<close>

record scheduler =
  syncInterval :: bool
  leaked :: nat
  initial_pending :: nat
  in_flight :: nat

datatype sched_event =
    StartSync | StopSync | InitialTimeout | IntervalTick | AdminTrigger | CycleSettled

definition scheduler_init :: scheduler where
  "scheduler_init =
     \<lparr>syncInterval = False, leaked = 0, initial_pending = 0, in_flight = 0\<rparr>"

fun sched_step :: "scheduler \<Rightarrow> sched_event \<Rightarrow> scheduler" where
  "sched_step s StartSync =
     s\<lparr>syncInterval := True,
       leaked := (if syncInterval s then leaked s + 1 else leaked s),
       initial_pending := initial_pending s + 1\<rparr>"
| "sched_step s StopSync = s\<lparr>syncInterval := False\<rparr>"
| "sched_step s InitialTimeout =
     (if 0 < initial_pending s
      then s\<lparr>initial_pending := initial_pending s - 1, in_flight := in_flight s + 1\<rparr>
      else s)"
| "sched_step s IntervalTick =
     (if syncInterval s \<or> 0 < leaked s then s\<lparr>in_flight := in_flight s + 1\<rparr> else s)"
| "sched_step s AdminTrigger = s\<lparr>in_flight := in_flight s + 1\<rparr>"
| "sched_step s CycleSettled = s\<lparr>in_flight := in_flight s - 1\<rparr>"

definition sched_run :: "scheduler \<Rightarrow> sched_event list \<Rightarrow> scheduler" where
  "sched_run s evs = foldl sched_step s evs"

section \<open>Concrete inputs\<close>

definition ex_builtins :: builtins where
  "ex_builtins =
     \<lparr>parseInt = (\<lambda>s. if s = ''1700000000'' then Some 1700000000
                      else if s = ''1'' then Some 1 else None),
      dateParse = (\<lambda>s. None),
      indiekitCode = (\<lambda>n. None)\<rparr>"

definition ex_images :: "img list" where
  "ex_images =
     [\<lparr>img_size = Some ''small'', img_text = Some ''https://img/s.png''\<rparr>,
      \<lparr>img_size = Some ''large'', img_text = Some ''https://img/l.png''\<rparr>]"

definition ex_track :: track where
  "ex_track =
     \<lparr>name = Text ''Song'', url = None, mbid = None,
      artist = Some (ArtistObj (Some ''Band'') None None), album = None,
      image_list = Some ex_images, date = Some (DateObj (Some ''1700000000'')),
      loved = Some ''0'', attr_nowplaying = None\<rparr>"

text \<open>An upstream that answers every request with 429 and an HTML page.\<close>

definition ex_response_429 :: http_response where
  "ex_response_429 =
     \<lparr>ok = False, status = 429, statusText = ''Too Many Requests'',
      content_type = Some ''text/html'',
      body_json = Inl (plain_error ''Unexpected token < in JSON at position 0'')\<rparr>"

definition ex_env_429 :: client_env where
  "ex_env_429 = \<lparr>net = (\<lambda>q. NetResponse ex_response_429),
                  fromFetch = (\<lambda>r. plain_error ''fromFetch'')\<rparr>"

definition ex_faults :: "nat db_env" where
  "ex_faults =
     \<lparr>index_fault = None, find_fault = None, update_fault = (\<lambda>i. None),
      settings_fault = False, getAllStats = (\<lambda>coll. Inr (length coll))\<rparr>"

definition ex_options :: options where
  "ex_options = \<lparr>o_apiKey = Some ''key'', o_username = Some ''user''\<rparr>"

definition ex_render :: "api_data \<Rightarrow> js_error + nat" where
  "ex_render data = Inr (length (page_tracks data))"

text \<open>
  An upstream whose single page holds the entry being played and one completed
  play, and the document of that play.
\<close>

definition ex_now_playing :: track where
  "ex_now_playing =
     \<lparr>name = Text ''Live'', url = None, mbid = None,
      artist = Some (ArtistObj (Some ''Band'') None None), album = None,
      image_list = None, date = None,
      loved = Some ''0'', attr_nowplaying = Some ''true''\<rparr>"

definition ex_response_one :: http_response where
  "ex_response_one =
     \<lparr>ok = True, status = 200, statusText = ''OK'',
      content_type = Some ''application/json; charset=utf-8'',
      body_json = Inr \<lparr>data_error = None, data_message = Undefined,
        data_recenttracks = Some \<lparr>rt_track = Some [ex_now_playing, ex_track], rt_totalPages = Some ''1''\<rparr>\<rparr>\<rparr>"

definition ex_env_one :: client_env where
  "ex_env_one = \<lparr>net = (\<lambda>q. NetResponse ex_response_one),
                  fromFetch = (\<lambda>r. plain_error ''fromFetch'')\<rparr>"

definition ex_clocks :: clocks where
  "ex_clocks = \<lparr>fetch_now = (\<lambda>p. 1700000600000), parse_now = (\<lambda>i. 1700000600000),
                 synced_now = (\<lambda>i. 1700000600000), stats_now = 1700000600000\<rparr>"

definition ex_client :: client where
  "ex_client = new_client ''key'' ''user'' (Some 60000)"

definition ex_doc :: doc where
  "ex_doc =
     \<lparr>lastfmId = ''Band:Song:1700000000000'', trackTitle = Some ''Song'', trackUrl = None,
      artistName = ''Band'', artistMbid = None, albumTitle = None, albumMbid = None,
      mbid_d = None, coverUrl = Some ''https://img/l.png'', loved_d = False,
      scrobbledAt = Some 1700000000000, syncedAt = Some 1700000600000\<rparr>"


definition ex_db_synced :: database where
  "ex_db_synced = \<lparr>scrobbles = [ex_doc], lastfmMeta = None\<rparr>"

text \<open>A completed play that carries no date.\<close>

definition ex_undated :: track where
  "ex_undated =
     \<lparr>name = Text ''Undated'', url = None, mbid = None,
      artist = Some (ArtistStr ''Band''), album = None,
      image_list = None, date = None,
      loved = None, attr_nowplaying = None\<rparr>"

definition ex_error_429 :: js_error where
  "ex_error_429 =
     \<lparr>err_message = ''Last.fm API returned 429: Too Many Requests'',
      err_status = Some 429, err_code = None\<rparr>"

text \<open>An upstream whose single page holds that play.\<close>

definition ex_response_undated :: http_response where
  "ex_response_undated =
     \<lparr>ok = True, status = 200, statusText = ''OK'',
      content_type = Some ''application/json'',
      body_json = Inr \<lparr>data_error = None, data_message = Undefined,
        data_recenttracks = Some \<lparr>rt_track = Some [ex_undated], rt_totalPages = Some ''1''\<rparr>\<rparr>\<rparr>"

definition ex_env_undated :: client_env where
  "ex_env_undated = \<lparr>net = (\<lambda>q. NetResponse ex_response_undated),
                      fromFetch = (\<lambda>r. plain_error ''fromFetch'')\<rparr>"

text \<open>
  A decimal \<open>parseInt\<close>, and an upstream that announces ten times the requested
  page as the total number of pages.
\<close>

definition digit_of :: "char \<Rightarrow> nat option" where
  "digit_of c = map_of (zip ''0123456789'' [0, 1, 2, 3, 4, 5, 6, 7, 8, 9]) c"

fun parse_digits :: "nat \<Rightarrow> string \<Rightarrow> nat option" where
  "parse_digits a [] = Some a"
| "parse_digits a (c # cs) =
     (case digit_of c of None \<Rightarrow> None | Some d \<Rightarrow> parse_digits (10 * a + d) cs)"

definition ex_builtins_decimal :: builtins where
  "ex_builtins_decimal =
     \<lparr>parseInt = (\<lambda>s. if s = [] then None else map_option int (parse_digits 0 s)),
      dateParse = (\<lambda>s. None),
      indiekitCode = (\<lambda>n. None)\<rparr>"

definition ex_data_more :: "string option \<Rightarrow> api_data" where
  "ex_data_more pageParam =
     \<lparr>data_error = None, data_message = Undefined,
      data_recenttracks = Some \<lparr>rt_track = Some [],
        rt_totalPages = map_option (\<lambda>p. p @ ''0'') pageParam\<rparr>\<rparr>"

definition ex_response_more :: "string option \<Rightarrow> http_response" where
  "ex_response_more pageParam =
     \<lparr>ok = True, status = 200, statusText = ''OK'',
      content_type = Some ''application/json'',
      body_json = Inr (ex_data_more pageParam)\<rparr>"

definition ex_env_endless :: client_env where
  "ex_env_endless =
     \<lparr>net = (\<lambda>(m, k, u, ps). NetResponse (ex_response_more (map_of ps ''page''))),
      fromFetch = (\<lambda>r. plain_error ''fromFetch'')\<rparr>"

section \<open>Cover URL selection\<close>

lemma getCoverUrl_loop_find:
  "getCoverUrl_loop imgs ss =
     (case find (\<lambda>s. case find (\<lambda>i. img_size i = Some s) imgs of
                        Some i \<Rightarrow> truthy (img_text i) | None \<Rightarrow> False) ss of
        Some s \<Rightarrow> img_text (the (find (\<lambda>i. img_size i = Some s) imgs))
      | None \<Rightarrow> None)"
  by (induction ss) (auto split: option.splits)

lemma orderedSizes_rotate:
  assumes "k < length sizePriority"
  shows "js_slice sizePriority (indexOf sizePriority (sizePriority ! k)) (int (length sizePriority)) @
         js_slice sizePriority 0 (indexOf sizePriority (sizePriority ! k)) = rotate k sizePriority"
proof -
  from assms have "k = 0 \<or> k = 1 \<or> k = 2 \<or> k = 3"
    by (auto simp: sizePriority_def)
  then show ?thesis
    by (elim disjE) (simp_all add: sizePriority_def js_slice_def rotate_def rotate1_def eval_nat_numeral)
qed

text \<open>
  Claim C8.  For a preferred size of the priority order (extralarge, large,
  medium, small) the sizes are tried from the preferred one on, wrapping round
  the fixed order: the answer is the URL of the first tried size whose first
  variant has a non-empty URL; when no listed size has one it is the URL of the
  first variant with any non-empty URL, and null when there is none.
\<close>

theorem getCoverUrl_priority:
  assumes "k < length sizePriority" and "image_list t = Some imgs"
  shows "getCoverUrl t (sizePriority ! k) =
     (case find (\<lambda>s. case find (\<lambda>i. img_size i = Some s) imgs of
                        Some i \<Rightarrow> truthy (img_text i) | None \<Rightarrow> False)
             (rotate k sizePriority) of
        Some s \<Rightarrow> img_text (the (find (\<lambda>i. img_size i = Some s) imgs))
      | None \<Rightarrow>
          (case find (\<lambda>i. truthy (img_text i)) imgs of
             Some i \<Rightarrow> img_text i
           | None \<Rightarrow> None))"
proof -
  have "getCoverUrl t (sizePriority ! k) =
      (case getCoverUrl_loop imgs (rotate k sizePriority) of
         Some u \<Rightarrow> Some u
       | None \<Rightarrow> (case find (\<lambda>i. truthy (img_text i)) imgs of
                     Some i \<Rightarrow> img_text i | None \<Rightarrow> None))"
    using assms(2) orderedSizes_rotate[OF assms(1)]
    by (simp add: getCoverUrl_def Let_def)
  note unfolded = this
  let ?P = "\<lambda>s. case find (\<lambda>i. img_size i = Some s) imgs of
                   Some i \<Rightarrow> truthy (img_text i) | None \<Rightarrow> False"
  show ?thesis
  proof (cases "find ?P (rotate k sizePriority)")
    case None
    then show ?thesis
      by (simp add: unfolded getCoverUrl_loop_find)
  next
    case (Some s)
    then have "?P s"
      by (auto simp: find_Some_iff)
    then obtain i u where "find (\<lambda>i. img_size i = Some s) imgs = Some i"
      and "img_text i = Some u"
      by (auto simp: truthy_def split: option.splits)
    with Some show ?thesis
      by (simp add: unfolded getCoverUrl_loop_find)
  qed
qed

theorem getCoverUrl_priority_witness:
  "(0 < length sizePriority \<and> image_list ex_track = Some ex_images) \<and>
   getCoverUrl ex_track ''extralarge'' = Some ''https://img/l.png''"
proof -
  have h1: "0 < length sizePriority" by (simp add: sizePriority_def)
  have h2: "image_list ex_track = Some ex_images" by (simp add: ex_track_def)
  have "sizePriority ! 0 = ''extralarge''" by (simp add: sizePriority_def)
  with getCoverUrl_priority[OF h1 h2] h1 h2 show ?thesis
    by (simp add: sizePriority_def ex_images_def truthy_def)
qed

section \<open>Stats cache and read path\<close>

text \<open>
  Claim C4.  A populated slot is returned verbatim whatever the clock says, so
  staleness never blocks, fails or changes the value; a slot that was never
  written reads as null, and the stats route without a database handle answers
  503 with the message that the stats are not available yet, where it answers
  200 with the snapshot once the slot is populated.
\<close>

theorem stats_cache_read:
  "(cachedStats (sc :: 's stats_cache) = Some s \<longrightarrow> getCachedStats now sc = Some s) \<and>
   getCachedStats now (setCachedStats t0 s sc) = Some s \<and>
   getCachedStats now (initial_cache :: 's stats_cache) = None \<and>
   (cachedStats sc = None \<longrightarrow>
      getCachedStats now sc = None \<and>
      statsController_api now True None sc =
        \<lparr>ans_status = 503, ans_retry_after = None,
         ans_body = ErrorMessage ''Stats not available yet''
           ''Stats are computed during background sync. Please try again shortly.''\<rparr>) \<and>
   (cachedStats sc = Some s \<longrightarrow>
      statsController_api now True None sc =
        \<lparr>ans_status = 200, ans_retry_after = None, ans_body = Payload s\<rparr>)"
  by (simp add: getCachedStats_def setCachedStats_def initial_cache_def statsController_api_def)

theorem stats_cache_read_witness:
  "getCachedStats 1700000900001
     (setCachedStats 1700000000000 (42::nat) initial_cache) = Some 42 \<and>
   ans_status (statsController_api 1700000000000 True None (initial_cache :: nat stats_cache)) = 503 \<and>
   ans_body (statsController_api 1700000900001 True None
      (setCachedStats 1700000000000 (42::nat) initial_cache)) = Payload 42"
proof -
  have a: "cachedStats (setCachedStats 1700000000000 (42::nat) initial_cache) = Some 42"
    by (simp add: setCachedStats_def)
  have b: "cachedStats (initial_cache :: nat stats_cache) = None"
    by (simp add: initial_cache_def)
  note f1 = stats_cache_read[where sc = "setCachedStats 1700000000000 (42::nat) initial_cache"
         and s = 42 and now = 1700000900001 and ?t0.0 = 1700000000000]
  note f2 = stats_cache_read[where sc = "initial_cache :: nat stats_cache" and s = 0
         and now = 1700000000000 and ?t0.0 = 0]
  show ?thesis using f1 f2 a b by simp
qed

text \<open>
  Claim C9.  The read accessor is extensionally the function that returns the
  current slot: the recorded write time and the five-minute constant have no
  effect on the value, in the expired branch as in the fresh one.
\<close>

theorem getCachedStats_is_slot:
  "getCachedStats now ((sc :: 's stats_cache)\<lparr>cachedStatsTime := t\<rparr>) = read_slot_spec sc \<and>
   getCachedStats now sc = read_slot_spec sc"
  by (simp add: getCachedStats_def read_slot_spec_def)

theorem getCachedStats_is_slot_witness:
  "getCachedStats 1700000900001 \<lparr>cachedStats = Some (7::nat), cachedStatsTime = Some 1700000000000\<rparr> = Some 7 \<and>
   getCachedStats 1700000000001 \<lparr>cachedStats = Some (7::nat), cachedStatsTime = Some 1700000000000\<rparr> = Some 7"
  using getCachedStats_is_slot[where now = 1700000900001 and t = None
          and sc = "\<lparr>cachedStats = Some (7::nat), cachedStatsTime = Some 1700000000000\<rparr>"]
        getCachedStats_is_slot[where now = 1700000000001 and t = None
          and sc = "\<lparr>cachedStats = Some (7::nat), cachedStatsTime = Some 1700000000000\<rparr>"]
  by (simp add: read_slot_spec_def)

section \<open>Playing status\<close>

text \<open>
  Claim C7.  The explicit marker \<open>nowplaying = "true"\<close> gives now playing.
  Otherwise, for a play with a valid timestamp, an age below 60 minutes gives now
  playing (so 59 minutes), an age from one hour up to but excluding 24 hours gives
  recently played (so 61 minutes), and an age of 24 hours or more gives no status
  (so 25 hours).
\<close>

theorem getPlayingStatus_classes:
  "(attr_nowplaying t = Some ''true'' \<longrightarrow> getPlayingStatus B tparse now t = Some NowPlaying) \<and>
   (attr_nowplaying t \<noteq> Some ''true'' \<and> parseDate B tparse (date t) = Some d \<longrightarrow>
      (now - d < 60 * 60000 \<longrightarrow> getPlayingStatus B tparse now t = Some NowPlaying) \<and>
      (60 * 60000 \<le> now - d \<and> now - d < 24 * 60 * 60000 \<longrightarrow>
         getPlayingStatus B tparse now t = Some RecentlyPlayed) \<and>
      (24 * 60 * 60000 \<le> now - d \<longrightarrow> getPlayingStatus B tparse now t = None) \<and>
      (now - d = 59 * 60000 \<longrightarrow> getPlayingStatus B tparse now t = Some NowPlaying) \<and>
      (now - d = 61 * 60000 \<longrightarrow> getPlayingStatus B tparse now t = Some RecentlyPlayed) \<and>
      (now - d = 25 * 60 * 60000 \<longrightarrow> getPlayingStatus B tparse now t = None))"
  by (simp add: getPlayingStatus_def Let_def field_simps)

theorem getPlayingStatus_classes_witness:
  "(attr_nowplaying ex_track \<noteq> Some ''true'' \<and>
    parseDate ex_builtins 0 (date ex_track) = Some 1700000000000) \<and>
   getPlayingStatus ex_builtins 0 1700003540000 ex_track = Some NowPlaying \<and>
   getPlayingStatus ex_builtins 0 1700003660000 ex_track = Some RecentlyPlayed \<and>
   getPlayingStatus ex_builtins 0 1700090000000 ex_track = None \<and>
   getPlayingStatus ex_builtins 0 1700090000000 (ex_track\<lparr>attr_nowplaying := Some ''true''\<rparr>)
     = Some NowPlaying"
proof -
  have h1: "attr_nowplaying ex_track \<noteq> Some ''true''"
    by (simp add: ex_track_def)
  have h2: "parseDate ex_builtins 0 (date ex_track) = Some 1700000000000"
    by (simp add: ex_track_def ex_builtins_def parseDate_def truthy_def newDate_def)
  have h3: "attr_nowplaying (ex_track\<lparr>attr_nowplaying := Some ''true''\<rparr>) = Some ''true''"
    by simp
  note c = getPlayingStatus_classes[where B = ex_builtins and tparse = 0
      and d = 1700000000000]
  from c[where t = ex_track and now = 1700003540000]
       c[where t = ex_track and now = 1700003660000]
       c[where t = ex_track and now = 1700090000000]
       c[where t = "ex_track\<lparr>attr_nowplaying := Some ''true''\<rparr>" and now = 1700090000000]
       h1 h2 h3
  show ?thesis by simp
qed

section \<open>Errors of the remote client\<close>

lemma fetch_miss_non_json:
  assumes "cache C (meth, apiKey C, username C, params) = None"
    and "net E (meth, apiKey C, username C, params) = NetResponse r"
    and "\<not> ok r"
    and "\<not> str_includes (case content_type r of Some s \<Rightarrow> s | None \<Rightarrow> []) ''application/json''"
  shows "fst (fetch B E now C meth params) =
           Inl (IndiekitError B
                  (''Last.fm API returned '' @ string_of_nat (status r) @ '': '' @ statusText r)
                  (status r))"
  using assms by (simp add: fetch_def Let_def)

text \<open>
  Claim C5, as the code has it.  For an upstream response with a non-success
  status and a content type that is not JSON, \<open>fetch\<close> throws one error of the
  error library's type carrying the HTTP status: never the failure of a JSON
  parse and never a result.  The controller answers with that status and marks
  the error retryable exactly for the statuses 502 and 503.
\<close>

theorem non_json_error_typed:
  assumes "\<forall>q. net E q = NetResponse r"
    and "\<not> ok r"
    and "\<not> str_includes (case content_type r of Some s \<Rightarrow> s | None \<Rightarrow> []) ''application/json''"
    and "err = IndiekitError B
                 (''Last.fm API returned '' @ string_of_nat (status r) @ '': '' @ statusText r)
                 (status r)"
  shows "fst (fetch B E now (new_client k u ttl) meth params) = Inl err \<and>
         err_status err = Some (status r) \<and>
         err \<noteq> plain_error ''SyntaxError'' \<and>
         (\<forall>b. fst (fetch B (E\<lparr>net := (\<lambda>q. NetResponse (r\<lparr>body_json := b\<rparr>))\<rparr>) now
                      (new_client k u ttl) meth params) = Inl err) \<and>
         (\<forall>e. body_json r = Inl e \<and> err_status e \<noteq> Some (status r) \<longrightarrow> err \<noteq> e) \<and>
         (scrobblesController_api B E F now (Some cfg) dbo ttl page limit render :: 'p answer) =
           controller_catch err \<and>
         ans_status (controller_catch err :: 'p answer) =
           (if status r = 0 then 500 else status r) \<and>
         ans_body (controller_catch err :: 'p answer) =
           ErrorInfo (err_message err)
             (if truthy (err_code err) then the (err_code err) else ''unknown'')
             (status r = 503 \<or> status r = 502)"
proof -
  have miss: "fst (fetch B E now (new_client k' u' ttl) m ps) = Inl err" for k' u' m ps
    using assms fetch_miss_non_json[of "new_client k' u' ttl" m ps E r B now]
    by (simp add: new_client_def)
  have body: "fst (fetch B (E\<lparr>net := (\<lambda>q. NetResponse (r\<lparr>body_json := b\<rparr>))\<rparr>) now
                      (new_client k u ttl) meth params) = Inl err" for b
    using assms
      fetch_miss_non_json[of "new_client k u ttl" meth params
        "E\<lparr>net := (\<lambda>q. NetResponse (r\<lparr>body_json := b\<rparr>))\<rparr>" "r\<lparr>body_json := b\<rparr>" B now]
    by (simp add: new_client_def)
  have "scrobblesController_api B E F now (Some cfg) dbo ttl page limit render
          = (controller_catch err :: 'p answer)"
    by (simp add: scrobblesController_api_def getRecentTracks_def miss split: prod.splits)
  moreover have st: "err_status err = Some (status r)" "err \<noteq> plain_error ''SyntaxError''"
    using assms(4) by (simp_all add: IndiekitError_def plain_error_def)
  moreover have "\<forall>e. body_json r = Inl e \<and> err_status e \<noteq> Some (status r) \<longrightarrow> err \<noteq> e"
    using st(1) by auto
  ultimately show ?thesis
    using miss body by (simp add: controller_catch_def Let_def)
qed

theorem non_json_error_typed_witness:
  "fst (fetch ex_builtins ex_env_429 0 (new_client ''key'' ''user'' None)
          ''user.getRecentTracks'' []) = Inl ex_error_429 \<and>
   err_status ex_error_429 = Some 429 \<and>
   ans_status (controller_catch ex_error_429 :: nat answer) = 429 \<and>
   ans_body (controller_catch ex_error_429 :: nat answer) =
     ErrorInfo ''Last.fm API returned 429: Too Many Requests'' ''unknown'' False"
proof -
  have h1: "\<forall>q. net ex_env_429 q = NetResponse ex_response_429"
    by (simp add: ex_env_429_def)
  have h2: "\<not> ok ex_response_429"
    by (simp add: ex_response_429_def)
  have h3: "\<not> str_includes (case content_type ex_response_429 of Some s \<Rightarrow> s | None \<Rightarrow> [])
               ''application/json''"
    by (simp add: ex_response_429_def)
  have h4: "ex_error_429 = IndiekitError ex_builtins
      (''Last.fm API returned '' @ string_of_nat (status ex_response_429) @ '': '' @
       statusText ex_response_429) (status ex_response_429)"
    by (simp add: ex_error_429_def IndiekitError_def ex_response_429_def ex_builtins_def
        string_of_nat.simps digit_char_def)
  have s: "status ex_response_429 = 429"
    by (simp add: ex_response_429_def)
  from non_json_error_typed[OF h1 h2 h3 h4, where now = 0 and k = "''key''"
      and u = "''user''" and ttl = None and meth = "''user.getRecentTracks''" and params = "[]"
      and F = ex_faults and cfg = ex_options and dbo = None and page = 1 and limit = 20
      and render = ex_render]
  show ?thesis
    by (simp add: s) (simp add: ex_error_429_def truthy_def)
qed

text \<open>
  A 429 with an HTML body: the answer carries status 429 and
  \<open>retryable = false\<close>, so the rate-limit condition is not classified transient.
\<close>

theorem rate_limit_not_retryable:
  "scrobblesController_api ex_builtins ex_env_429 ex_faults 0 (Some ex_options) None None 1 20
     ex_render =
   \<lparr>ans_status = 429, ans_retry_after = None,
    ans_body = ErrorInfo ''Last.fm API returned 429: Too Many Requests'' ''unknown'' False\<rparr>"
  by (simp add: scrobblesController_api_def getRecentTracks_def fetch_def Let_def new_client_def
      getEffectiveConfig_def ex_options_def ex_env_429_def ex_response_429_def ex_builtins_def
      truthy_def controller_catch_def IndiekitError_def string_of_nat.simps digit_char_def)

section \<open>Pagination loops\<close>

lemma fetch_client:
  "apiKey (snd (fetch B E now C m ps)) = apiKey C \<and>
   username (snd (fetch B E now C m ps)) = username C \<and>
   cacheTtl (snd (fetch B E now C m ps)) = cacheTtl C"
  by (simp add: fetch_def Let_def split: option.splits prod.splits net_outcome.splits sum.splits if_splits)

lemma fetch_sent:
  "sent (snd (fetch B E now C m ps)) = sent C \<or>
   sent (snd (fetch B E now C m ps)) = sent C @ [(m, apiKey C, username C, ps)]"
  by (simp add: fetch_def Let_def split: option.splits prod.splits net_outcome.splits sum.splits if_splits)

lemma string_of_nat_200: "string_of_nat 200 = ''200''"
  by (simp add: string_of_nat.simps digit_char_def)

lemma getRecentTracks_page:
  "getRecentTracks B E now C page 200 from None =
     (case page_request C page from of
        (m, k, u, ps) \<Rightarrow> fetch B E now C m ps)"
  by (simp add: getRecentTracks_def page_request_def string_of_nat_200)

lemma getRecentTracks_sent:
  assumes "getRecentTracks B E now C page 200 from None = (r, C')"
  shows "apiKey C' = apiKey C \<and> username C' = username C \<and>
         (sent C' = sent C \<or> sent C' = sent C @ [page_request C page from])"
proof -
  obtain ps where ps: "page_request C page from = (''user.getRecentTracks'', apiKey C, username C, ps)"
    by (simp add: page_request_def)
  with assms have "C' = snd (fetch B E now C ''user.getRecentTracks'' ps)"
    by (simp add: getRecentTracks_page)
  then show ?thesis
    using fetch_client[of B E now C "''user.getRecentTracks''" ps]
      fetch_sent[of B E now C "''user.getRecentTracks''" ps] ps
    by simp
qed

lemma getAllRecentTracks_loop_sent:
  "getAllRecentTracks_loop B E clk maxPages hasMore page acc C = (res, C') \<Longrightarrow>
   apiKey C' = apiKey C \<and> username C' = username C \<and>
   (\<exists>qs. sent C' = sent C @ qs \<and>
         length qs \<le> (if hasMore then Suc maxPages - page else 0) \<and>
         (\<forall>q\<in>set qs. \<exists>p. page \<le> p \<and> p \<le> maxPages \<and> q = page_request C p None))"
proof (induction B E clk maxPages hasMore page acc C arbitrary: res C'
       rule: getAllRecentTracks_loop.induct)
  case (1 B E clk maxPages hasMore page allTracks C)
  show ?case
  proof (cases "hasMore \<and> page \<le> maxPages")
    case False
    with "1.prems" show ?thesis
      by (auto simp: getAllRecentTracks_loop.simps)
  next
    case True
    obtain r C1 where g: "getRecentTracks B E (clk page) C page 200 None None = (r, C1)"
      by (cases "getRecentTracks B E (clk page) C page 200 None None") auto
    note s1 = getRecentTracks_sent[OF g]
    show ?thesis
    proof (cases r)
      case (Inl e)
      with True g "1.prems" have "C' = C1"
        by (simp add: getAllRecentTracks_loop.simps)
      with s1 True show ?thesis
        by (auto intro: exI[where x = "[]"] exI[where x = "[page_request C page None]"])
    next
      case (Inr response)
      with True g "1.prems" have rec:
        "getAllRecentTracks_loop B E clk maxPages (int page < totalPages B response) (page + 1)
           (allTracks @ scrobbledTracks response) C1 = (res, C')"
        by (simp add: getAllRecentTracks_loop.simps)
      from "1.IH"[OF True g[symmetric] Inr rec] obtain qs where
        ih: "apiKey C' = apiKey C1" "username C' = username C1" "sent C' = sent C1 @ qs"
            "length qs \<le> (if int page < totalPages B response then Suc maxPages - (page + 1) else 0)"
            "\<forall>q\<in>set qs. \<exists>p. page + 1 \<le> p \<and> p \<le> maxPages \<and> q = page_request C1 p None"
        by auto
      have pr: "page_request C1 p None = page_request C p None" for p
        using s1 by (simp add: page_request_def)
      have ih5: "\<forall>q\<in>set qs. \<exists>p. page \<le> p \<and> p \<le> maxPages \<and> q = page_request C p None"
      proof
        fix q assume "q \<in> set qs"
        with ih(5) obtain p where "page + 1 \<le> p" "p \<le> maxPages" "q = page_request C1 p None"
          by blast
        then show "\<exists>p. page \<le> p \<and> p \<le> maxPages \<and> q = page_request C p None"
          using pr by (intro exI[of _ p]) auto
      qed
      note ih = ih(1-4) ih5
      from s1 show ?thesis
      proof (elim conjE disjE)
        assume "sent C1 = sent C"
        with ih s1 pr True show ?thesis
          by (intro conjI exI[where x = qs]) (auto split: if_splits)
      next
        assume "sent C1 = sent C @ [page_request C page None]"
        with ih s1 pr True show ?thesis
          by (intro conjI exI[where x = "page_request C page None # qs"]) (auto split: if_splits)
      qed
    qed
  qed
qed

lemma fetch_inv:
  assumes "\<forall>k d ts. cache C k = Some (d, ts) \<longrightarrow> P k d"
    and "\<forall>q r d. net E q = NetResponse r \<longrightarrow> body_json r = Inr d \<longrightarrow> P q d"
    and "fetch B E now C m ps = (res, C')"
  shows "(\<forall>d. res = Inr d \<longrightarrow> P (m, apiKey C, username C, ps) d) \<and>
         (\<forall>k d ts. cache C' k = Some (d, ts) \<longrightarrow> P k d)"
proof (cases "case cache C (m, apiKey C, username C, ps) of
                Some (data, ts) \<Rightarrow> if now - ts < cacheTtl C then Some data else None
              | None \<Rightarrow> None")
  case (Some data)
  then have "res = Inr data" "C' = C"
    using assms(3) by (simp_all add: fetch_def Let_def)
  moreover from Some obtain ts where "cache C (m, apiKey C, username C, ps) = Some (data, ts)"
    by (auto split: option.splits prod.splits if_splits)
  with assms(1) have "P (m, apiKey C, username C, ps) data" by blast
  ultimately show ?thesis using assms(1) by simp
next
  case None
  show ?thesis
  proof (cases "net E (m, apiKey C, username C, ps)")
    case (NetFail e)
    with None assms(3) have "res = Inl e" "cache C' = cache C"
      by (auto simp: fetch_def Let_def)
    with assms(1) show ?thesis by simp
  next
    case (NetResponse r)
    have "(\<exists>e. res = Inl e \<and> cache C' = cache C) \<or>
       (\<exists>d. res = Inr d \<and> body_json r = Inr d \<and>
            cache C' = (cache C)((m, apiKey C, username C, ps) \<mapsto> (d, now)))"
    proof (cases "body_json r")
      case (Inl e)
      have "fetch B E now C m ps = (res, C') \<Longrightarrow> (\<exists>e. res = Inl e) \<and> cache C' = cache C"
        unfolding fetch_def Let_def using None NetResponse Inl
        by (auto split: if_splits) metis
      with assms(3) show ?thesis by blast
    next
      case (Inr d)
      have "fetch B E now C m ps = (res, C') \<Longrightarrow> (\<exists>e. res = Inl e \<and> cache C' = cache C) \<or>
         (res = Inr d \<and> cache C' = (cache C)((m, apiKey C, username C, ps) \<mapsto> (d, now)))"
        unfolding fetch_def Let_def using None NetResponse Inr
        by (auto split: if_splits)
      with assms(3) Inr show ?thesis by blast
    qed
    then show ?thesis
    proof (elim disjE exE conjE)
      fix e assume "res = Inl e" "cache C' = cache C"
      with assms(1) show ?thesis by simp
    next
      fix d assume d: "res = Inr d" "body_json r = Inr d"
        "cache C' = (cache C)((m, apiKey C, username C, ps) \<mapsto> (d, now))"
      with assms(2) NetResponse have "P (m, apiKey C, username C, ps) d" by blast
      with d assms(1) show ?thesis by (auto split: if_splits)
    qed
  qed
qed

lemma getRecentTracks_served:
  assumes coh: "\<forall>k d ts. cache C k = Some (d, ts) \<longrightarrow> served E k = Some d"
    and g: "getRecentTracks B E now C page 200 from None = (res, C')"
  shows "(\<forall>d. res = Inr d \<longrightarrow> served E (page_request C page from) = Some d) \<and>
         (\<forall>k d ts. cache C' k = Some (d, ts) \<longrightarrow> served E k = Some d)"
proof -
  obtain ps where ps: "page_request C page from = (''user.getRecentTracks'', apiKey C, username C, ps)"
    by (simp add: page_request_def)
  with g have f: "fetch B E now C ''user.getRecentTracks'' ps = (res, C')"
    by (simp add: getRecentTracks_page)
  have n: "\<forall>q r d. net E q = NetResponse r \<longrightarrow> body_json r = Inr d \<longrightarrow> served E q = Some d"
    by (simp add: served_def)
  from fetch_inv[where P = "\<lambda>k d. served E k = Some d", OF coh n f] ps show ?thesis
    by simp
qed

lemma length_scrobbledTracks: "length (scrobbledTracks d) \<le> length (page_tracks d)"
  by (simp add: scrobbledTracks_def)

lemma unmarked_scrobbledTracks: "t \<in> set (scrobbledTracks d) \<Longrightarrow> \<not> truthy (attr_nowplaying t)"
  by (simp add: scrobbledTracks_def)

lemma getAllRecentTracks_loop_length:
  "\<forall>q r d. net E q = NetResponse r \<longrightarrow> body_json r = Inr d \<longrightarrow>
                 length (page_tracks d) \<le> 200 \<Longrightarrow>
   \<forall>k d ts. cache C k = Some (d, ts) \<longrightarrow> length (page_tracks d) \<le> 200 \<Longrightarrow>
     getAllRecentTracks_loop B E clk maxPages hasMore page acc C = (Inr tracks, C') \<Longrightarrow>
     length tracks \<le> length acc + 200 * (if hasMore then Suc maxPages - page else 0)"
proof (induction B E clk maxPages hasMore page acc C arbitrary: tracks C'
       rule: getAllRecentTracks_loop.induct)
  case (1 B E clk maxPages hasMore page allTracks C)
  show ?case
  proof (cases "hasMore \<and> page \<le> maxPages")
    case False
    with "1.prems" show ?thesis
      by (auto simp: getAllRecentTracks_loop.simps)
  next
    case True
    obtain r C1 where g: "getRecentTracks B E (clk page) C page 200 None None = (r, C1)"
      by (cases "getRecentTracks B E (clk page) C page 200 None None") auto
    show ?thesis
    proof (cases r)
      case (Inl e)
      with True g "1.prems" show ?thesis
        by (simp add: getAllRecentTracks_loop.simps)
    next
      case (Inr response)
      with True g "1.prems" have rec:
        "getAllRecentTracks_loop B E clk maxPages (int page < totalPages B response) (page + 1)
           (allTracks @ scrobbledTracks response) C1 = (Inr tracks, C')"
        by (simp add: getAllRecentTracks_loop.simps)
      from fetch_inv[where P = "\<lambda>k d. length (page_tracks d) \<le> 200",
          OF "1.prems"(2) "1.prems"(1) g[unfolded getRecentTracks_def]] Inr
      have p: "length (page_tracks response) \<le> 200"
        and inv: "\<forall>k d ts. cache C1 k = Some (d, ts) \<longrightarrow> length (page_tracks d) \<le> 200"
        by blast+
      from "1.IH"[OF True g[symmetric] Inr "1.prems"(1) inv rec]
      have "length tracks \<le> length (allTracks @ scrobbledTracks response) +
              200 * (if int page < totalPages B response then Suc maxPages - (page + 1) else 0)" .
      moreover have "length (scrobbledTracks response) \<le> 200"
        using p length_scrobbledTracks[of response] by linarith
      ultimately show ?thesis
        using True by (auto split: if_splits)
    qed
  qed
qed

lemma getAllRecentTracks_loop_unmarked:
  "\<forall>t\<in>set acc. \<not> truthy (attr_nowplaying t) \<Longrightarrow>
   getAllRecentTracks_loop B E clk maxPages hasMore page acc C = (Inr tracks, C') \<Longrightarrow>
   \<forall>t\<in>set tracks. \<not> truthy (attr_nowplaying t)"
proof (induction B E clk maxPages hasMore page acc C arbitrary: tracks C'
       rule: getAllRecentTracks_loop.induct)
  case (1 B E clk maxPages hasMore page allTracks C)
  show ?case
  proof (cases "hasMore \<and> page \<le> maxPages")
    case False
    with "1.prems" show ?thesis
      by (auto simp: getAllRecentTracks_loop.simps)
  next
    case True
    obtain r C1 where g: "getRecentTracks B E (clk page) C page 200 None None = (r, C1)"
      by (cases "getRecentTracks B E (clk page) C page 200 None None") auto
    show ?thesis
    proof (cases r)
      case (Inl e)
      with True g "1.prems" show ?thesis
        by (simp add: getAllRecentTracks_loop.simps)
    next
      case (Inr response)
      with True g "1.prems" have rec:
        "getAllRecentTracks_loop B E clk maxPages (int page < totalPages B response) (page + 1)
           (allTracks @ scrobbledTracks response) C1 = (Inr tracks, C')"
        by (simp add: getAllRecentTracks_loop.simps)
      have "\<forall>t\<in>set (allTracks @ scrobbledTracks response). \<not> truthy (attr_nowplaying t)"
        using "1.prems"(1) unmarked_scrobbledTracks by auto
      from "1.IH"[OF True g[symmetric] Inr this rec] show ?thesis .
    qed
  qed
qed

lemma getNewScrobbles_loop_unmarked:
  assumes run: "getNewScrobbles_loop B E clk fromTimestamp hasMore page acc C = Some (Inr tracks, C')"
    and acc: "\<forall>t\<in>set acc. \<not> truthy (attr_nowplaying t)"
  shows "\<forall>t\<in>set tracks. \<not> truthy (attr_nowplaying t)"
proof -
  let ?Q = "\<lambda>(acc :: track list) (y :: (js_error + track list) \<times> client).
      (\<forall>t\<in>set acc. \<not> truthy (attr_nowplaying t)) \<longrightarrow>
      (\<forall>tracks C'. y = (Inr tracks, C') \<longrightarrow> (\<forall>t\<in>set tracks. \<not> truthy (attr_nowplaying t)))"
  have "?Q acc (Inr tracks, C')"
  proof (rule getNewScrobbles_loop.raw_induct
      [where P = "\<lambda>B E clk fromTimestamp hasMore page acc C y. ?Q acc y", OF _ run])
    fix f :: "builtins \<Rightarrow> client_env \<Rightarrow> (nat \<Rightarrow> int) \<Rightarrow> int \<Rightarrow> bool \<Rightarrow> nat \<Rightarrow> track list
                \<Rightarrow> client \<Rightarrow> ((js_error + track list) \<times> client) option"
      and B E clk fromTimestamp hasMore page and acc0 :: "track list" and C y
    assume IH: "\<And>B E clk fromTimestamp hasMore page acc0 C y.
        f B E clk fromTimestamp hasMore page acc0 C = Some y \<Longrightarrow> ?Q acc0 y"
    assume body: "(if hasMore
      then case getRecentTracks B E (clk page) C page 200 (Some fromTimestamp) None of
           (Inl e, C') \<Rightarrow> Some (Inl e, C')
           | (Inr response, C') \<Rightarrow>
               f B E clk fromTimestamp (int page < totalPages B response) (page + 1)
                 (acc0 @ scrobbledTracks response) C'
      else Some (Inr acc0, C)) = Some y"
    show "?Q acc0 y"
    proof (cases hasMore)
      case False
      with body show ?thesis by auto
    next
      case True
      obtain r C1 where
        g: "getRecentTracks B E (clk page) C page 200 (Some fromTimestamp) None = (r, C1)"
        by (cases "getRecentTracks B E (clk page) C page 200 (Some fromTimestamp) None") auto
      show ?thesis
      proof (cases r)
        case (Inl e)
        with True g body show ?thesis by auto
      next
        case (Inr response)
        with True g body have
          "f B E clk fromTimestamp (int page < totalPages B response)
             (page + 1) (acc0 @ scrobbledTracks response) C1 = Some y"
          by simp
        from IH[OF this] show ?thesis
          using unmarked_scrobbledTracks by auto
      qed
    qed
  qed
  with acc show ?thesis by blast
qed

lemma scrobbledTracks_served:
  "served E q = Some d \<Longrightarrow> scrobbledTracks d = completed_plays E q"
  by (simp add: completed_plays_def scrobbledTracks_def page_of_def page_tracks_def)

lemma page_request_client:
  "apiKey C1 = apiKey C \<Longrightarrow> username C1 = username C \<Longrightarrow>
   page_request C1 p from = page_request C p from"
  by (simp add: page_request_def)

lemma getAllRecentTracks_loop_pages:
  "\<forall>k d ts. cache C k = Some (d, ts) \<longrightarrow> served E k = Some d \<Longrightarrow>
   getAllRecentTracks_loop B E clk maxPages hasMore page acc C = (Inr tracks, C') \<Longrightarrow>
   \<exists>m. page \<le> m \<and> m \<le> max page (Suc maxPages) \<and>
       tracks = acc @ concat (map (\<lambda>p. completed_plays E (page_request C p None)) [page..<m])"
proof (induction B E clk maxPages hasMore page acc C arbitrary: tracks C'
       rule: getAllRecentTracks_loop.induct)
  case (1 B E clk maxPages hasMore page allTracks C)
  show ?case
  proof (cases "hasMore \<and> page \<le> maxPages")
    case False
    with "1.prems" have "tracks = allTracks"
      by (auto simp: getAllRecentTracks_loop.simps)
    then show ?thesis
      by (intro exI[where x = page]) simp
  next
    case True
    obtain r C1 where g: "getRecentTracks B E (clk page) C page 200 None None = (r, C1)"
      by (cases "getRecentTracks B E (clk page) C page 200 None None") auto
    show ?thesis
    proof (cases r)
      case (Inl e)
      with True g "1.prems" show ?thesis
        by (simp add: getAllRecentTracks_loop.simps)
    next
      case (Inr response)
      with True g "1.prems" have rec:
        "getAllRecentTracks_loop B E clk maxPages (int page < totalPages B response) (page + 1)
           (allTracks @ scrobbledTracks response) C1 = (Inr tracks, C')"
        by (simp add: getAllRecentTracks_loop.simps)
      from getRecentTracks_served[OF "1.prems"(1) g] Inr
      have s: "served E (page_request C page None) = Some response"
        and coh: "\<forall>k d ts. cache C1 k = Some (d, ts) \<longrightarrow> served E k = Some d"
        by blast+
      from getRecentTracks_sent[OF g]
      have pr: "page_request C1 p None = page_request C p None" for p
        by (intro page_request_client) simp_all
      from "1.IH"[OF True g[symmetric] Inr coh rec] obtain m where
        mm: "page + 1 \<le> m \<and> m \<le> max (page + 1) (Suc maxPages) \<and>
          tracks = (allTracks @ scrobbledTracks response) @
             concat (map (\<lambda>p. completed_plays E (page_request C1 p None)) [page + 1..<m])" ..
      note m = mm[THEN conjunct1] mm[THEN conjunct2, THEN conjunct1]
        mm[THEN conjunct2, THEN conjunct2]
      from m(1) have u: "[page..<m] = page # [page + 1..<m]"
        by (simp add: upt_conv_Cons)
      have "tracks = allTracks @
              concat (map (\<lambda>p. completed_plays E (page_request C p None)) [page..<m])"
        using m(3) scrobbledTracks_served[OF s] by (simp add: u pr)
      with m(1,2) True show ?thesis
        by (intro exI[where x = m]) auto
    qed
  qed
qed

lemma getNewScrobbles_loop_pages:
  assumes run: "getNewScrobbles_loop B E clk fromTimestamp hasMore page acc C = Some (Inr tracks, C')"
    and coh: "\<forall>k d ts. cache C k = Some (d, ts) \<longrightarrow> served E k = Some d"
  shows "\<exists>m. page \<le> m \<and>
       tracks = acc @ concat (map (\<lambda>p. completed_plays E (page_request C p (Some fromTimestamp)))
                               [page..<m])"
proof -
  let ?Q = "\<lambda>(E :: client_env) (fr :: int) (page :: nat) (acc :: track list) (C :: client)
      (y :: (js_error + track list) \<times> client).
      (\<forall>k d ts. cache C k = Some (d, ts) \<longrightarrow> served E k = Some d) \<longrightarrow>
      (\<forall>tracks C'. y = (Inr tracks, C') \<longrightarrow>
         (\<exists>m. page \<le> m \<and>
            tracks = acc @ concat (map (\<lambda>p. completed_plays E (page_request C p (Some fr)))
                                    [page..<m])))"
  have "?Q E fromTimestamp page acc C (Inr tracks, C')"
  proof (rule getNewScrobbles_loop.raw_induct
      [where P = "\<lambda>B E clk fromTimestamp hasMore page acc C y. ?Q E fromTimestamp page acc C y",
        OF _ run])
    fix f :: "builtins \<Rightarrow> client_env \<Rightarrow> (nat \<Rightarrow> int) \<Rightarrow> int \<Rightarrow> bool \<Rightarrow> nat \<Rightarrow> track list
                \<Rightarrow> client \<Rightarrow> ((js_error + track list) \<times> client) option"
      and B E clk fromTimestamp hasMore page and acc0 :: "track list" and C y
    assume IH: "\<And>B E clk fromTimestamp hasMore page acc0 C y.
        f B E clk fromTimestamp hasMore page acc0 C = Some y \<Longrightarrow> ?Q E fromTimestamp page acc0 C y"
    assume body: "(if hasMore
      then case getRecentTracks B E (clk page) C page 200 (Some fromTimestamp) None of
           (Inl e, C') \<Rightarrow> Some (Inl e, C')
           | (Inr response, C') \<Rightarrow>
               f B E clk fromTimestamp (int page < totalPages B response) (page + 1)
                 (acc0 @ scrobbledTracks response) C'
      else Some (Inr acc0, C)) = Some y"
    show "?Q E fromTimestamp page acc0 C y"
    proof (intro impI allI)
      fix tracks C'
      assume coh: "\<forall>k d ts. cache C k = Some (d, ts) \<longrightarrow> served E k = Some d"
        and y: "y = (Inr tracks, C')"
      show "\<exists>m. page \<le> m \<and>
            tracks = acc0 @ concat (map (\<lambda>p. completed_plays E
                                       (page_request C p (Some fromTimestamp))) [page..<m])"
      proof (cases hasMore)
        case False
        with body y have "tracks = acc0" by simp
        then show ?thesis
          by (intro exI[where x = page]) simp
      next
        case True
        obtain r C1 where
          g: "getRecentTracks B E (clk page) C page 200 (Some fromTimestamp) None = (r, C1)"
          by (cases "getRecentTracks B E (clk page) C page 200 (Some fromTimestamp) None") auto
        show ?thesis
        proof (cases r)
          case (Inl e)
          with True g body y show ?thesis by simp
        next
          case (Inr response)
          with True g body have rec:
            "f B E clk fromTimestamp (int page < totalPages B response)
               (page + 1) (acc0 @ scrobbledTracks response) C1 = Some y"
            by simp
          from getRecentTracks_served[OF coh g] Inr
          have s: "served E (page_request C page (Some fromTimestamp)) = Some response"
            and coh1: "\<forall>k d ts. cache C1 k = Some (d, ts) \<longrightarrow> served E k = Some d"
            by blast+
          from getRecentTracks_sent[OF g]
          have pr: "page_request C1 p (Some fromTimestamp) = page_request C p (Some fromTimestamp)"
            for p
            by (intro page_request_client) simp_all
          from IH[OF rec, THEN mp, OF coh1, THEN spec, THEN spec, THEN mp, OF y] obtain m where
            mm: "page + 1 \<le> m \<and>
              tracks = (acc0 @ scrobbledTracks response) @
                 concat (map (\<lambda>p. completed_plays E (page_request C1 p (Some fromTimestamp)))
                           [page + 1..<m])" ..
          note m = mm[THEN conjunct1] mm[THEN conjunct2]
          from m(1) have u: "[page..<m] = page # [page + 1..<m]"
            by (simp add: upt_conv_Cons)
          have "tracks = acc0 @
              concat (map (\<lambda>p. completed_plays E (page_request C p (Some fromTimestamp)))
                        [page..<m])"
            using m(2) scrobbledTracks_served[OF s] by (simp add: u pr)
          with m(1) show ?thesis
            by (intro exI[where x = m]) auto
        qed
      qed
    qed
  qed
  with coh show ?thesis by blast
qed

section \<open>The durable store\<close>

lemma update_matching_Inr:
  "update_matching d rs = Some (Inr rs') \<Longrightarrow>
   d \<in> set rs' \<and> length rs' = length rs \<and> (\<forall>r\<in>set rs. \<exists>r'\<in>set rs'. same_key r r')"
proof (induction rs arbitrary: rs')
  case Nil
  then show ?case by simp
next
  case (Cons r rs)
  show ?case
  proof (cases "same_key d r")
    case True
    with Cons.prems have "rs' = d # rs"
      by (auto split: if_splits)
    moreover have "same_key r d"
      using True by (auto simp: same_key_def)
    moreover have "same_key x x" for x
      by (simp add: same_key_def)
    ultimately show ?thesis by auto
  next
    case False
    with Cons.prems obtain rs0 where r0: "update_matching d rs = Some (Inr rs0)" "rs' = r # rs0"
      by (auto split: option.splits sum.splits if_splits)
    from Cons.IH[OF r0(1)] r0(2) show ?thesis
      by (auto simp: same_key_def)
  qed
qed

lemma updateOne_Inr:
  assumes "updateOne coll d = Inr coll'"
  shows "d \<in> set coll' \<and> (\<forall>r\<in>set coll. \<exists>r'\<in>set coll'. same_key r r')"
proof (cases "update_matching d coll")
  case None
  with assms have "coll' = coll @ [d]"
    by (auto simp: updateOne_def split: if_splits)
  moreover have "same_key x x" for x
    by (simp add: same_key_def)
  ultimately show ?thesis by auto
next
  case (Some res)
  with assms have "update_matching d coll = Some (Inr coll')"
    by (simp add: updateOne_def)
  from update_matching_Inr[OF this] show ?thesis by blast
qed

lemma same_key_trans: "same_key a b \<Longrightarrow> same_key b c \<Longrightarrow> same_key a c"
  by (auto simp: same_key_def)

lemma upsert_loop_keeps:
  "upsert_loop F i ds n coll = (n', coll') \<Longrightarrow>
   n' \<le> n + length ds \<and> (\<forall>r\<in>set coll. \<exists>r'\<in>set coll'. same_key r r')"
proof (induction F i ds n coll arbitrary: n' coll' rule: upsert_loop.induct)
  case (1 F i n coll)
  then show ?case by (auto simp: same_key_def)
next
  case (2 F i d ds n coll)
  show ?case
  proof (cases "case update_fault F i of Some e \<Rightarrow> Inl e | None \<Rightarrow> updateOne coll d")
    case (Inl e)
    with "2.prems" have "upsert_loop F (i + 1) ds n coll = (n', coll')" by simp
    from "2.IH"(1)[OF Inl this] show ?thesis by auto
  next
    case (Inr c1)
    with "2.prems" have rec: "upsert_loop F (i + 1) ds (n + 1) c1 = (n', coll')" by simp
    from Inr have "updateOne coll d = Inr c1"
      by (auto split: option.splits)
    from updateOne_Inr[OF this] "2.IH"(2)[OF Inr rec] show ?thesis
      by (auto dest: same_key_trans) (meson same_key_trans)
  qed
qed

lemma upsert_loop_all_written:
  "upsert_loop F i ds n coll = (n + length ds, coll') \<Longrightarrow>
   k < length ds \<Longrightarrow> \<exists>r\<in>set coll'. same_key (ds ! k) r"
proof (induction F i ds n coll arbitrary: coll' k rule: upsert_loop.induct)
  case (1 F i n coll)
  then show ?case by simp
next
  case (2 F i d ds n coll)
  show ?case
  proof (cases "case update_fault F i of Some e \<Rightarrow> Inl e | None \<Rightarrow> updateOne coll d")
    case (Inl e)
    with "2.prems" have "upsert_loop F (i + 1) ds n coll = (n + length (d # ds), coll')" by simp
    from upsert_loop_keeps[OF this] show ?thesis by simp
  next
    case (Inr c1)
    with "2.prems" have rec: "upsert_loop F (i + 1) ds (n + 1) c1 = (n + 1 + length ds, coll')"
      by simp
    from Inr have u: "updateOne coll d = Inr c1"
      by (auto split: option.splits)
    show ?thesis
    proof (cases k)
      case 0
      from updateOne_Inr[OF u] have "d \<in> set c1" by simp
      with upsert_loop_keeps[OF rec] 0 show ?thesis by auto
    next
      case (Suc j)
      with "2.prems"(2) have "j < length ds" by simp
      from "2.IH"(2)[OF Inr rec this] Suc show ?thesis by simp
    qed
  qed
qed


lemma update_matching_rows:
  "update_matching d rs = Some (Inr rs') \<Longrightarrow> set rs' \<subseteq> insert d (set rs)"
proof (induction rs arbitrary: rs')
  case Nil
  then show ?case by simp
next
  case (Cons r rs)
  show ?case
  proof (cases "same_key d r")
    case True
    with Cons.prems show ?thesis by (auto split: if_splits)
  next
    case False
    with Cons.prems obtain rs0 where r0: "update_matching d rs = Some (Inr rs0)" "rs' = r # rs0"
      by (auto split: option.splits sum.splits if_splits)
    from Cons.IH[OF r0(1)] r0(2) show ?thesis by auto
  qed
qed



lemma updateOne_rows:
  assumes "updateOne coll d = Inr coll'"
  shows "set coll' \<subseteq> insert d (set coll)"
proof (cases "update_matching d coll")
  case None
  with assms show ?thesis
    by (auto simp: updateOne_def split: if_splits)
next
  case (Some res)
  with assms have "update_matching d coll = Some (Inr coll')"
    by (simp add: updateOne_def)
  from update_matching_rows[OF this] show ?thesis .
qed

lemma upsert_loop_rows:
  "upsert_loop F i ds n coll = (n', coll') \<Longrightarrow>
   n \<le> n' \<and> set coll' \<subseteq> set coll \<union> set ds"
proof (induction F i ds n coll arbitrary: n' coll' rule: upsert_loop.induct)
  case (1 F i n coll)
  then show ?case by simp
next
  case (2 F i d ds n coll)
  show ?case
  proof (cases "case update_fault F i of Some e \<Rightarrow> Inl e | None \<Rightarrow> updateOne coll d")
    case (Inl e)
    with "2.prems" have "upsert_loop F (i + 1) ds n coll = (n', coll')" by simp
    from "2.IH"(1)[OF Inl this] show ?thesis by auto
  next
    case (Inr c1)
    with "2.prems" have rec: "upsert_loop F (i + 1) ds (n + 1) c1 = (n', coll')" by simp
    from Inr have "updateOne coll d = Inr c1"
      by (auto split: option.splits)
    from updateOne_rows[OF this] "2.IH"(2)[OF Inr rec] show ?thesis
      by auto
  qed
qed

lemma update_matching_new_id:
  "lastfmId d \<notin> lastfmId ` set rs \<Longrightarrow>
   update_matching d rs = None \<or> (\<exists>rs'. update_matching d rs = Some (Inr rs'))"
  by (induction rs) auto

lemma updateOne_new_id:
  assumes "lastfmId d \<notin> lastfmId ` set coll"
  shows "\<exists>c1. updateOne coll d = Inr c1"
  using update_matching_new_id[OF assms] assms
  by (auto simp: updateOne_def)

lemma upsert_loop_writes_new:
  "upsert_loop F i ds n coll = (n', coll') \<Longrightarrow> k < length ds \<Longrightarrow>
   update_fault F (i + k) = None \<Longrightarrow>
   lastfmId (ds ! k) \<notin> lastfmId ` set coll \<Longrightarrow>
   \<forall>j<k. lastfmId (ds ! j) \<noteq> lastfmId (ds ! k) \<Longrightarrow>
   n < n' \<and> (\<exists>r\<in>set coll'. same_key (ds ! k) r)"
proof (induction F i ds n coll arbitrary: n' coll' k rule: upsert_loop.induct)
  case (1 F i n coll)
  then show ?case by simp
next
  case (2 F i d ds n coll)
  show ?case
  proof (cases k)
    case 0
    with "2.prems"(4) obtain c1 where u: "updateOne coll d = Inr c1"
      using updateOne_new_id[of d coll] by auto
    with "2.prems"(1,3) 0 have rec: "upsert_loop F (i + 1) ds (n + 1) c1 = (n', coll')"
      by simp
    from updateOne_Inr[OF u] have "d \<in> set c1" by simp
    with upsert_loop_keeps[OF rec] upsert_loop_rows[OF rec] 0 show ?thesis
      by auto
  next
    case (Suc j)
    with "2.prems"(2) have j: "j < length ds" by simp
    from Suc "2.prems"(3) have f: "update_fault F (i + 1 + j) = None" by simp
    from Suc "2.prems"(5) have o: "\<forall>l<j. lastfmId (ds ! l) \<noteq> lastfmId (ds ! j)"
      by auto
    from Suc "2.prems"(5) have here: "lastfmId d \<noteq> lastfmId (ds ! j)"
      by auto
    from Suc "2.prems"(4) have old: "lastfmId (ds ! j) \<notin> lastfmId ` set coll" by simp
    show ?thesis
    proof (cases "case update_fault F i of Some e \<Rightarrow> Inl e | None \<Rightarrow> updateOne coll d")
      case (Inl e)
      with "2.prems"(1) have "upsert_loop F (i + 1) ds n coll = (n', coll')" by simp
      from "2.IH"(1)[OF Inl this j f old o] Suc show ?thesis by simp
    next
      case (Inr c1)
      with "2.prems"(1) have rec: "upsert_loop F (i + 1) ds (n + 1) c1 = (n', coll')" by simp
      from Inr have "updateOne coll d = Inr c1"
        by (auto split: option.splits)
      from updateOne_rows[OF this] old here
      have "lastfmId (ds ! j) \<notin> lastfmId ` set c1" by auto
      from "2.IH"(2)[OF Inr rec j f this o] Suc show ?thesis by simp
    qed
  qed
qed




section \<open>First sync and the now-playing marker\<close>

lemma getAllRecentTracks_sent:
  assumes "getAllRecentTracks B E clk C 10 = (res, C')"
  shows "\<exists>qs. sent C' = sent C @ qs \<and> length qs \<le> 10 \<and>
           (\<forall>q\<in>set qs. \<exists>p. 1 \<le> p \<and> p \<le> 10 \<and> q = page_request C p None)"
  using getAllRecentTracks_loop_sent[OF assms[unfolded getAllRecentTracks_def]]
  by auto

lemma first_sync_returns:
  "\<exists>res coll' C'. syncScrobbles B E F K C [] = Some (res, coll', C') \<and>
     (\<exists>qs. sent C' = sent C @ qs \<and> length qs \<le> 10 \<and>
        (\<forall>q\<in>set qs. \<exists>p. 1 \<le> p \<and> p \<le> 10 \<and> q = page_request C p None))"
proof -
  obtain r C1 where g: "getAllRecentTracks B E (fetch_now K) C 10 = (r, C1)"
    by (cases "getAllRecentTracks B E (fetch_now K) C 10") auto
  note s = getAllRecentTracks_sent[OF g]
  have e: "\<exists>qs. sent C = sent C @ qs \<and> length qs \<le> 10 \<and>
        (\<forall>q\<in>set qs. \<exists>p. 1 \<le> p \<and> p \<le> 10 \<and> q = page_request C p None)"
    by (rule exI[where x = "[]"]) simp
  show ?thesis
    using g s e
    by (auto simp: syncScrobbles_def latestDate_def newScrobbles_def
        split: option.splits sum.splits prod.splits)
qed

lemma syncScrobbles_cases:
  assumes run: "syncScrobbles B E F K C coll = Some (res, coll', C')"
  shows "(\<exists>e. res = Inl e \<and> coll' = coll) \<or>
         (\<exists>ms ts n. latestDate coll = Some ms \<and> index_fault F = None \<and> find_fault F = None \<and>
            newScrobbles B E K C ms = Some (Inr ts, C') \<and>
            res = Inr \<lparr>synced = n, error = None\<rparr> \<and>
            upsert_loop F 0 (transform_all B K ts) 0 coll = (n, coll'))"
proof (cases "index_fault F \<noteq> None \<or> find_fault F \<noteq> None \<or> latestDate coll = None")
  case True
  with run show ?thesis
    by (auto simp: syncScrobbles_def split: option.splits)
next
  case False
  then obtain ms where ms:
    "index_fault F = None" "find_fault F = None" "latestDate coll = Some ms"
    by auto
  from run ms obtain r C1 where f: "newScrobbles B E K C ms = Some (r, C1)"
    by (cases "newScrobbles B E K C ms") (auto simp: syncScrobbles_def)
  show ?thesis
  proof (cases r)
    case (Inl e)
    with run ms f have "res = Inl e" "coll' = coll"
      by (simp_all add: syncScrobbles_def)
    then show ?thesis by blast
  next
    case (Inr new)
    show ?thesis
    proof (cases "new = []")
      case True
      with run ms f Inr have "res = Inr \<lparr>synced = 0, error = None\<rparr>" "coll' = coll" "C' = C1"
        by (simp_all add: syncScrobbles_def)
      with ms f Inr True show ?thesis
        by (simp add: transform_all_def)
    next
      case False
      obtain n c2 where u: "upsert_loop F 0 (transform_all B K new) 0 coll = (n, c2)"
        by (cases "upsert_loop F 0 (transform_all B K new) 0 coll") auto
      with False run ms f Inr have "res = Inr \<lparr>synced = n, error = None\<rparr>" "coll' = c2" "C' = C1"
        by (simp_all add: syncScrobbles_def)
      with ms f Inr u show ?thesis by simp
    qed
  qed
qed

lemma newScrobbles_unmarked:
  assumes f: "newScrobbles B E K C ms = Some (Inr ts, C')"
  shows "\<forall>t\<in>set ts. \<not> truthy (attr_nowplaying t)"
proof (cases "ms = 0")
  case True
  with f have "getAllRecentTracks_loop B E (fetch_now K) 10 True 1 [] C = (Inr ts, C')"
    by (simp add: newScrobbles_def getAllRecentTracks_def)
  from getAllRecentTracks_loop_unmarked[OF _ this] show ?thesis by simp
next
  case False
  with f have "getNewScrobbles_loop B E (fetch_now K) (ms div 1000) True 1 [] C
                 = Some (Inr ts, C')"
    by (simp add: newScrobbles_def getNewScrobbles_def)
  from getNewScrobbles_loop_unmarked[OF this] show ?thesis by simp
qed

lemma newScrobbles_pages:
  assumes f: "newScrobbles B E K C ms = Some (Inr ts, C')"
    and c: "cache C = Map.empty"
  shows "\<exists>n. (ms = 0 \<longrightarrow> n \<le> 10) \<and>
           ts = concat (map (\<lambda>p. completed_plays E
                  (page_request C p (if ms = 0 then None else Some (ms div 1000))))
                 [1..<Suc n])"
proof (cases "ms = 0")
  case True
  with f have "getAllRecentTracks_loop B E (fetch_now K) 10 True 1 [] C = (Inr ts, C')"
    by (simp add: newScrobbles_def getAllRecentTracks_def)
  from getAllRecentTracks_loop_pages[OF _ this] c obtain m where
    m: "1 \<le> m" "m \<le> 11"
      "ts = concat (map (\<lambda>p. completed_plays E (page_request C p None)) [1..<m])"
    by auto
  from m(1) have "Suc (m - 1) = m" by simp
  with m True show ?thesis
    by (intro exI[where x = "m - 1"]) simp
next
  case False
  with f have "getNewScrobbles_loop B E (fetch_now K) (ms div 1000) True 1 [] C
                 = Some (Inr ts, C')"
    by (simp add: newScrobbles_def getNewScrobbles_def)
  from getNewScrobbles_loop_pages[OF this] c obtain m where
    m: "1 \<le> m"
      "ts = concat (map (\<lambda>p. completed_plays E (page_request C p (Some (ms div 1000)))) [1..<m])"
    by auto
  from m(1) have "Suc (m - 1) = m" by simp
  with m False show ?thesis
    by (intro exI[where x = "m - 1"]) simp
qed

lemma length_completed_plays:
  assumes "\<forall>q d. served E q = Some d \<longrightarrow> length (page_of d) \<le> 200"
  shows "length (completed_plays E q) \<le> 200"
proof (cases "served E q")
  case None
  then show ?thesis by (simp add: completed_plays_def)
next
  case (Some d)
  with assms have "length (page_of d) \<le> 200" by blast
  moreover have "length (filter (\<lambda>t. \<not> truthy (attr_nowplaying t)) (page_of d)) \<le>
                   length (page_of d)"
    by (rule length_filter_le)
  ultimately have "length (filter (\<lambda>t. \<not> truthy (attr_nowplaying t)) (page_of d)) \<le> 200"
    by (rule order_trans[rotated])
  with Some show ?thesis by (simp add: completed_plays_def)
qed

lemma length_concat_pages:
  assumes "\<And>p. length (f p) \<le> (200 :: nat)"
  shows "length (concat (map f [1..<Suc n])) \<le> 200 * n"
proof (induction n)
  case 0
  then show ?case by simp
next
  case (Suc n)
  have "length (concat (map f [1..<Suc (Suc n)])) =
          length (concat (map f [1..<Suc n])) + length (f (Suc n))"
    by simp
  with Suc assms[of "Suc n"] show ?case by simp
qed

lemma sync_persists_unmarked:
  assumes run: "syncScrobbles B E F K C coll = Some (res, coll', C')"
  shows "case res of
           Inl e \<Rightarrow> coll' = coll
         | Inr r \<Rightarrow>
             (\<exists>ms ts. latestDate coll = Some ms \<and>
                newScrobbles B E K C ms = Some (Inr ts, C') \<and>
                (\<forall>t\<in>set ts. \<not> truthy (attr_nowplaying t)) \<and>
                (synced r, coll') = upsert_loop F 0 (transform_all B K ts) 0 coll \<and>
                (\<forall>row\<in>set coll'. row \<in> set coll \<or> row \<in> set (transform_all B K ts)) \<and>
                (cache C = Map.empty \<longrightarrow>
                   (\<exists>n. (ms = 0 \<longrightarrow> n \<le> 10) \<and>
                      ts = concat (map (\<lambda>p. completed_plays E
                             (page_request C p (if ms = 0 then None else Some (ms div 1000))))
                            [1..<Suc n])) \<and>
                   (ms = 0 \<and> (\<forall>q d. served E q = Some d \<longrightarrow> length (page_of d) \<le> 200) \<longrightarrow>
                      length ts \<le> 2000)))"
  using syncScrobbles_cases[OF run]
proof (elim disjE exE conjE)
  fix e assume "res = Inl e" "coll' = coll"
  then show ?thesis by simp
next
  fix ms ts n
  assume ms: "latestDate coll = Some ms"
    and f: "newScrobbles B E K C ms = Some (Inr ts, C')"
    and r: "res = Inr \<lparr>synced = n, error = None\<rparr>"
    and u: "upsert_loop F 0 (transform_all B K ts) 0 coll = (n, coll')"
  note unmarked = newScrobbles_unmarked[OF f]
  from upsert_loop_rows[OF u]
  have rows: "\<forall>row\<in>set coll'. row \<in> set coll \<or> row \<in> set (transform_all B K ts)"
    by auto
  have pages: "\<exists>n. (ms = 0 \<longrightarrow> n \<le> 10) \<and>
                  ts = concat (map (\<lambda>p. completed_plays E
                         (page_request C p (if ms = 0 then None else Some (ms div 1000))))
                        [1..<Suc n])"
    if "cache C = Map.empty"
    using newScrobbles_pages[OF f that] .
  have bound: "length ts \<le> 2000"
    if c: "cache C = Map.empty" and z: "ms = 0"
      and b: "\<forall>q d. served E q = Some d \<longrightarrow> length (page_of d) \<le> 200"
  proof -
    from pages[OF c] z obtain k where
      k: "k \<le> 10" "ts = concat (map (\<lambda>p. completed_plays E (page_request C p None)) [1..<Suc k])"
      by auto
    from length_concat_pages[of "\<lambda>p. completed_plays E (page_request C p None)" k]
      length_completed_plays[OF b]
    have "length ts \<le> 200 * k" unfolding k(2) by blast
    with k(1) show ?thesis by simp
  qed
  have "\<exists>ms ts. latestDate coll = Some ms \<and>
                newScrobbles B E K C ms = Some (Inr ts, C') \<and>
                (\<forall>t\<in>set ts. \<not> truthy (attr_nowplaying t)) \<and>
                (n, coll') = upsert_loop F 0 (transform_all B K ts) 0 coll \<and>
                (\<forall>row\<in>set coll'. row \<in> set coll \<or> row \<in> set (transform_all B K ts)) \<and>
                (cache C = Map.empty \<longrightarrow>
                   (\<exists>n. (ms = 0 \<longrightarrow> n \<le> 10) \<and>
                      ts = concat (map (\<lambda>p. completed_plays E
                             (page_request C p (if ms = 0 then None else Some (ms div 1000))))
                            [1..<Suc n])) \<and>
                   (ms = 0 \<and> (\<forall>q d. served E q = Some d \<longrightarrow> length (page_of d) \<le> 200) \<longrightarrow>
                      length ts \<le> 2000))"
    using ms f unmarked u[symmetric] rows pages bound
    by (intro exI[where x = ms] exI[where x = ts] conjI impI) blast+
  with r show ?thesis by simp
qed

text \<open>
  Claim C6.  A first sync (empty collection) always returns and hands at most
  ten requests to the network, each for a page between 1 and 10 with limit 200.
  In every cycle that returns a result, first or incremental, no fetched item
  carries a truthy now-playing marker, the count and the new collection are
  those of upserting the transformed items, and every row of the new collection
  is a row of the old one or one of these documents; a cycle that throws writes
  nothing.  For a client with an empty cache, as \<open>runSync\<close> builds it, the
  fetched items are exactly the entries without a truthy marker of the pages
  \<open>1\<close> to \<open>n\<close> that the upstream serves, with \<open>n\<close> at most 10 on a first sync (no
  stored play, or the latest one at the epoch): at most 2000 items when the
  upstream keeps to the limit of 200.
\<close>

theorem first_sync_cap_and_marker_exclusion:
  "(\<exists>res coll' C'. syncScrobbles B E F K C [] = Some (res, coll', C') \<and>
      (\<exists>qs. sent C' = sent C @ qs \<and> length qs \<le> 10 \<and>
         (\<forall>q\<in>set qs. \<exists>p. 1 \<le> p \<and> p \<le> 10 \<and>
            q = (''user.getRecentTracks'', apiKey C, username C,
                 [(''page'', string_of_nat p), (''limit'', ''200''), (''extended'', ''1'')])))) \<and>
   (\<forall>res coll' C'. syncScrobbles B E F K C coll = Some (res, coll', C') \<longrightarrow>
      (case res of
         Inl e \<Rightarrow> coll' = coll
       | Inr r \<Rightarrow>
           (\<exists>ms ts. latestDate coll = Some ms \<and>
              newScrobbles B E K C ms = Some (Inr ts, C') \<and>
              (\<forall>t\<in>set ts. \<not> truthy (attr_nowplaying t)) \<and>
              (synced r, coll') = upsert_loop F 0 (transform_all B K ts) 0 coll \<and>
              (\<forall>row\<in>set coll'. row \<in> set coll \<or> row \<in> set (transform_all B K ts)) \<and>
              (cache C = Map.empty \<longrightarrow>
                 (\<exists>n. (ms = 0 \<longrightarrow> n \<le> 10) \<and>
                    ts = concat (map (\<lambda>p. completed_plays E
                           (page_request C p (if ms = 0 then None else Some (ms div 1000))))
                          [1..<Suc n])) \<and>
                 (ms = 0 \<and> (\<forall>q d. served E q = Some d \<longrightarrow> length (page_of d) \<le> 200) \<longrightarrow>
                    length ts \<le> 2000)))))"
proof -
  have a: "\<exists>res coll' C'. syncScrobbles B E F K C [] = Some (res, coll', C') \<and>
      (\<exists>qs. sent C' = sent C @ qs \<and> length qs \<le> 10 \<and>
         (\<forall>q\<in>set qs. \<exists>p. 1 \<le> p \<and> p \<le> 10 \<and>
            q = (''user.getRecentTracks'', apiKey C, username C,
                 [(''page'', string_of_nat p), (''limit'', ''200''), (''extended'', ''1'')])))"
    using first_sync_returns[of B E F K C] unfolding page_request_def by simp
  from a sync_persists_unmarked[of B E F K C coll] show ?thesis
    by (intro conjI allI impI)
qed

section \<open>Two cycles on a concrete upstream\<close>

lemma ex_transform: "transformScrobble ex_builtins 1700000600000 1700000600000 ex_track = ex_doc"
  by (simp add: transformScrobble_def template_text_def ex_doc_def ex_track_def ex_builtins_def parseDate_def
      truthy_def newDate_def getTrackUrl_def getMbid_def or_null_def artist_mbid_def album_mbid_def
      getCoverUrl_def sizePriority_def js_slice_def getCoverUrl_loop.simps ex_images_def
      string_of_int_def string_of_nat.simps digit_char_def Let_def)

lemmas ex_eval_simps =
  getRecentTracks_def fetch_def new_client_def ex_env_one_def ex_response_one_def
  ex_builtins_def ex_clocks_def ex_faults_def ex_options_def
  scrobbledTracks_def page_tracks_def totalPages_def truthy_def
  string_of_int_def string_of_nat.simps digit_char_def Let_def
  getEffectiveSyncOptions_def transform_all_def updateOne_def same_key_def
  setCachedStats_def initial_cache_def

lemma ex_backfill:
  "fst (getAllRecentTracks ex_builtins ex_env_one (fetch_now ex_clocks) ex_client 10) =
     Inr [ex_track]"
proof -
  have t: "attr_nowplaying ex_track = None" "attr_nowplaying ex_now_playing = Some ''true''"
    by (simp_all add: ex_track_def ex_now_playing_def)
  show ?thesis
    by (simp add: getAllRecentTracks_def getAllRecentTracks_loop.simps ex_client_def
        ex_eval_simps t)
qed




lemma ex_sync_first:
  "\<exists>C1. syncScrobbles ex_builtins ex_env_one ex_faults ex_clocks ex_client [] =
     Some (Inr \<lparr>synced = 1, error = None\<rparr>, [ex_doc], C1)"
proof -
  obtain C1 where
    g: "getAllRecentTracks ex_builtins ex_env_one (fetch_now ex_clocks) ex_client 10 =
          (Inr [ex_track], C1)"
    using ex_backfill
    by (cases "getAllRecentTracks ex_builtins ex_env_one (fetch_now ex_clocks) ex_client 10") auto
  have k: "parse_now ex_clocks 0 = 1700000600000" "synced_now ex_clocks 0 = 1700000600000"
    by (simp_all add: ex_clocks_def)
  have "syncScrobbles ex_builtins ex_env_one ex_faults ex_clocks ex_client [] =
     Some (Inr \<lparr>synced = 1, error = None\<rparr>, [ex_doc], C1)"
    by (simp add: syncScrobbles_def latestDate_def newScrobbles_def g ex_faults_def
        transform_all_def k ex_transform updateOne_def)
  then show ?thesis ..
qed


theorem first_sync_cap_and_marker_exclusion_witness:
  "\<exists>C1. syncScrobbles ex_builtins ex_env_one ex_faults ex_clocks ex_client [] =
          Some (Inr \<lparr>synced = 1, error = None\<rparr>, [ex_doc], C1) \<and>
     (\<exists>d. served ex_env_one (page_request ex_client 1 None) = Some d \<and>
          page_of d = [ex_now_playing, ex_track]) \<and>
     truthy (attr_nowplaying ex_now_playing) \<and>
     completed_plays ex_env_one (page_request ex_client 1 None) = [ex_track] \<and>
     (\<exists>ts. newScrobbles ex_builtins ex_env_one ex_clocks ex_client 0 = Some (Inr ts, C1) \<and>
        (\<forall>t\<in>set ts. \<not> truthy (attr_nowplaying t)) \<and>
        (\<forall>row\<in>set [ex_doc]. row \<in> set (transform_all ex_builtins ex_clocks ts)) \<and>
        (\<exists>n\<le>10. ts = concat (map (\<lambda>p. completed_plays ex_env_one
                                     (page_request ex_client p None)) [1..<Suc n])) \<and>
        length ts \<le> 2000)"
proof -
  from ex_sync_first obtain C1 where
    s: "syncScrobbles ex_builtins ex_env_one ex_faults ex_clocks ex_client [] =
       Some (Inr \<lparr>synced = 1, error = None\<rparr>, [ex_doc], C1)" ..
  have c: "cache ex_client = Map.empty"
    by (simp add: ex_client_def new_client_def)
  have b: "\<forall>q d. served ex_env_one q = Some d \<longrightarrow> length (page_of d) \<le> 200"
    by (simp add: served_def ex_env_one_def ex_response_one_def page_of_def)
  have l: "latestDate [] = Some 0"
    by (simp add: latestDate_def)
  have t: "attr_nowplaying ex_track = None" "attr_nowplaying ex_now_playing = Some ''true''"
    by (simp_all add: ex_track_def ex_now_playing_def)
  have page: "served ex_env_one (page_request ex_client 1 None) =
                Some \<lparr>data_error = None, data_message = Undefined,
                  data_recenttracks = Some \<lparr>rt_track = Some [ex_now_playing, ex_track],
                    rt_totalPages = Some ''1''\<rparr>\<rparr>"
    by (simp add: served_def ex_env_one_def ex_response_one_def)
  have plays: "completed_plays ex_env_one (page_request ex_client 1 None) = [ex_track]"
    by (simp add: completed_plays_def served_def ex_env_one_def ex_response_one_def
        page_of_def t truthy_def)
  note inst = first_sync_cap_and_marker_exclusion[where B = ex_builtins and E = ex_env_one
      and F = ex_faults and K = ex_clocks and C = ex_client and coll = "[]"]
  from inst[THEN conjunct2, rule_format, OF s] l c b obtain ts where
    ts: "newScrobbles ex_builtins ex_env_one ex_clocks ex_client 0 = Some (Inr ts, C1)"
      "\<forall>t\<in>set ts. \<not> truthy (attr_nowplaying t)"
      "\<forall>row\<in>set [ex_doc]. row \<in> set (transform_all ex_builtins ex_clocks ts)"
      "\<exists>n\<le>10. ts = concat (map (\<lambda>p. completed_plays ex_env_one
                                     (page_request ex_client p None)) [1..<Suc n])"
      "length ts \<le> 2000"
    by auto
  show ?thesis
    using s ts page plays t
    by (intro exI[where x = C1]) (simp add: page_of_def truthy_def)
qed

section \<open>Re-running the sync\<close>

lemma length_transform_all: "length (transform_all B K ts) = length ts"
  by (simp add: transform_all_def)

lemma nth_transform_all:
  "k < length ts \<Longrightarrow>
   transform_all B K ts ! k = transformScrobble B (parse_now K k) (synced_now K k) (ts ! k)"
  by (simp add: transform_all_def nth_enumerate_eq)






section \<open>Exceptions of a cycle\<close>









section \<open>A cycle that never returns\<close>

lemma digit_of_digit_char: "d < 10 \<Longrightarrow> digit_of (digit_char d) = Some d"
proof -
  assume "d < 10"
  then have "d \<in> {0, 1, 2, 3, 4, 5, 6, 7, 8, 9}" by auto
  then show ?thesis
    by (auto simp: digit_char_def digit_of_def)
qed

lemma parse_digits_append:
  "parse_digits a (xs @ ys) =
     (case parse_digits a xs of None \<Rightarrow> None | Some b \<Rightarrow> parse_digits b ys)"
  by (induction xs arbitrary: a) (auto split: option.splits)

lemma parse_digits_string_of_nat: "parse_digits 0 (string_of_nat n) = Some n"
proof (induction n rule: string_of_nat.induct)
  case (1 n)
  show ?case
  proof (cases "n < 10")
    case True
    then show ?thesis
      by (subst string_of_nat.simps) (simp add: digit_of_digit_char)
  next
    case False
    with 1 have "parse_digits 0 (string_of_nat (n div 10)) = Some (n div 10)" by simp
    with False show ?thesis
      by (subst string_of_nat.simps)
         (simp add: parse_digits_append digit_of_digit_char)
  qed
qed

lemma string_of_nat_nonempty: "string_of_nat n \<noteq> []"
  by (subst string_of_nat.simps) simp

lemma ex_totalPages_more:
  "totalPages ex_builtins_decimal
     (ex_data_more (Some (string_of_nat p))) =
   (if p = 0 then 1 else 10 * int p)"
  by (simp add: totalPages_def ex_data_more_def ex_builtins_decimal_def
      parse_digits_append parse_digits_string_of_nat string_of_nat_nonempty digit_of_def)

lemma ex_fetch_endless:
  assumes "\<forall>m k u ps d t. cache C (m, k, u, ps) = Some (d, t) \<longrightarrow>
             d = ex_data_more (map_of ps ''page'')"
  shows "\<exists>C1. fetch B ex_env_endless now C m ps =
            (Inr (ex_data_more (map_of ps ''page'')), C1) \<and>
          (\<forall>m k u ps d t. cache C1 (m, k, u, ps) = Some (d, t) \<longrightarrow>
             d = ex_data_more (map_of ps ''page''))"
proof (cases "case cache C (m, apiKey C, username C, ps) of
                Some (data, ts) \<Rightarrow> if now - ts < cacheTtl C then Some data else None
              | None \<Rightarrow> None")
  case (Some data)
  then obtain ts where "cache C (m, apiKey C, username C, ps) = Some (data, ts)"
    by (auto split: option.splits prod.splits if_splits)
  with assms have "data = ex_data_more (map_of ps ''page'')"
    by blast
  with Some assms show ?thesis
    by (intro exI[where x = C]) (simp add: fetch_def Let_def)
next
  case None
  then show ?thesis
    using assms
    by (auto simp: fetch_def Let_def ex_env_endless_def ex_response_more_def ex_data_more_def)
qed

lemma ex_endless_loop:
  assumes run: "getNewScrobbles_loop ex_builtins_decimal ex_env_endless clk fr True page acc C = Some y"
    and page: "1 \<le> page"
    and inv: "\<forall>m k u ps d t. cache C (m, k, u, ps) = Some (d, t) \<longrightarrow>
             d = ex_data_more (map_of ps ''page'')"
  shows False
proof -
  let ?Q = "\<lambda>B E (hasMore :: bool) (page :: nat) C.
      B = ex_builtins_decimal \<and> E = ex_env_endless \<and> hasMore \<and> 1 \<le> page \<and>
      (\<forall>m k u ps d t. cache C (m, k, u, ps) = Some (d, t) \<longrightarrow>
             d = ex_data_more (map_of ps ''page'')) \<longrightarrow> False"
  have "?Q ex_builtins_decimal ex_env_endless True page C"
  proof (rule getNewScrobbles_loop.raw_induct
      [where P = "\<lambda>B E clk fromTimestamp hasMore page acc C y. ?Q B E hasMore page C", OF _ run])
    fix f :: "builtins \<Rightarrow> client_env \<Rightarrow> (nat \<Rightarrow> int) \<Rightarrow> int \<Rightarrow> bool \<Rightarrow> nat \<Rightarrow> track list
                \<Rightarrow> client \<Rightarrow> ((js_error + track list) \<times> client) option"
      and B E clk fromTimestamp hasMore page and newScrobbles :: "track list" and C y
    assume IH: "\<And>B E clk fromTimestamp hasMore page newScrobbles C y.
        f B E clk fromTimestamp hasMore page newScrobbles C = Some y \<Longrightarrow> ?Q B E hasMore page C"
    assume body: "(if hasMore
      then case getRecentTracks B E (clk page) C page 200 (Some fromTimestamp) None of
           (Inl e, C') \<Rightarrow> Some (Inl e, C')
           | (Inr response, C') \<Rightarrow>
               f B E clk fromTimestamp (int page < totalPages B response) (page + 1)
                 (newScrobbles @ scrobbledTracks response) C'
      else Some (Inr newScrobbles, C)) = Some y"
    show "?Q B E hasMore page C"
    proof (intro impI, elim conjE)
      assume B: "B = ex_builtins_decimal" and E: "E = ex_env_endless" and h: hasMore
        and p: "1 \<le> page"
        and i: "\<forall>m k u ps d t. cache C (m, k, u, ps) = Some (d, t) \<longrightarrow>
             d = ex_data_more (map_of ps ''page'')"
      define ps where "ps = [(''page'', string_of_nat page),
         (''limit'', string_of_nat (min 200 200)), (''extended'', ''1'')] @
        (if fromTimestamp = 0 then [] else [(''from'', string_of_int fromTimestamp)])"
      have mp: "map_of ps ''page'' = Some (string_of_nat page)"
        by (simp add: ps_def)
      from ex_fetch_endless[OF i, of B "clk page" "''user.getRecentTracks''" ps] obtain C1 where
        g: "fetch B ex_env_endless (clk page) C ''user.getRecentTracks'' ps =
              (Inr (ex_data_more (Some (string_of_nat page))), C1)"
        and i1: "\<forall>m k u ps d t. cache C1 (m, k, u, ps) = Some (d, t) \<longrightarrow>
             d = ex_data_more (map_of ps ''page'')"
        unfolding mp by blast
      let ?d = "ex_data_more (Some (string_of_nat page))"
      have gr: "getRecentTracks B E (clk page) C page 200 (Some fromTimestamp) None = (Inr ?d, C1)"
        using g by (simp add: getRecentTracks_def E ps_def)
      have more: "int page < totalPages B ?d"
        using p by (simp add: B ex_totalPages_more)
      from body h gr more have
        "f B E clk fromTimestamp True (page + 1) (newScrobbles @ scrobbledTracks ?d) C1 = Some y"
        by simp
      from IH[OF this] B E i1 show False by simp
    qed
  qed
  with page inv show False by blast
qed

text \<open>
  The incremental fetch has no page bound.  Against an upstream that announces
  ten times the requested page as the total, a cycle on a collection that holds
  a play never returns.
\<close>

theorem incremental_sync_need_not_return:
  "runSync ex_builtins_decimal ex_env_endless ex_faults ex_clocks (Some ex_db_synced) ex_options
     initial_cache = None"
proof -
  have c: "\<forall>m k u ps d t. cache ex_client (m, k, u, ps) = Some (d, t) \<longrightarrow>
             d = ex_data_more (map_of ps ''page'')"
    by (simp add: ex_client_def new_client_def)
  have "getNewScrobbles ex_builtins_decimal ex_env_endless (fetch_now ex_clocks) ex_client
          1700000000000 = None"
  proof (rule ccontr)
    assume "getNewScrobbles ex_builtins_decimal ex_env_endless (fetch_now ex_clocks) ex_client
          1700000000000 \<noteq> None"
    then obtain y where
      "getNewScrobbles_loop ex_builtins_decimal ex_env_endless (fetch_now ex_clocks)
         (1700000000000 div 1000) True 1 [] ex_client = Some y"
      by (auto simp: getNewScrobbles_def)
    from ex_endless_loop[OF this _ c] show False by simp
  qed
  moreover have "scrobbledAt ex_doc = Some 1700000000000"
    by (simp add: ex_doc_def)
  ultimately have "syncScrobbles ex_builtins_decimal ex_env_endless ex_faults ex_clocks
      ex_client [ex_doc] = None"
    by (simp add: syncScrobbles_def latestDate_def newScrobbles_def ex_faults_def)
  then show ?thesis
    by (simp add: runSync_def ex_db_synced_def getEffectiveSyncOptions_def
        ex_options_def truthy_def ex_client_def ex_faults_def)
qed

section \<open>Items without a date\<close>

lemma transform_undated:
  assumes "date s = None"
  shows "scrobbledAt (transformScrobble B tparse tsync s) = Some tparse \<and>
      trackTitle (transformScrobble B tparse tsync s) =
        (case name s of Text n \<Rightarrow> Some n | _ \<Rightarrow> None) \<and>
      artistName (transformScrobble B tparse tsync s) = getArtistName s"
  using assms by (simp add: transformScrobble_def Let_def parseDate_def)

text \<open>
  Claim C10.  \<open>parseDate\<close> has no failing branch; on a missing date it yields the
  clock reading.  \<open>transformScrobble\<close> therefore gives an item without a date the
  time of its transformation as \<open>scrobbledAt\<close>.  When the cycle fetches such an
  item, its upsert does not fail for a reason of its own, and its \<open>lastfmId\<close> is
  carried neither by a stored row nor by an item fetched before it,
  \<open>syncScrobbles\<close> returns a result with a positive count and the collection
  then holds a row with that timestamp and the item's title and artist.
\<close>

theorem missing_date_is_now:
  "parseDate B now None = Some now \<and>
   (date s = None \<longrightarrow>
      scrobbledAt (transformScrobble B tparse tsync s) = Some tparse \<and>
      trackTitle (transformScrobble B tparse tsync s) =
        (case name s of Text n \<Rightarrow> Some n | _ \<Rightarrow> None) \<and>
      artistName (transformScrobble B tparse tsync s) = getArtistName s) \<and>
   (index_fault F = None \<and> find_fault F = None \<and> latestDate coll = Some ms \<and>
    newScrobbles B E K C ms = Some (Inr ts, C') \<and>
    k < length ts \<and> date (ts ! k) = None \<and> update_fault F k = None \<and>
    lastfmId (transform_all B K ts ! k) \<notin> lastfmId ` set coll \<and>
    (\<forall>j<k. lastfmId (transform_all B K ts ! j) \<noteq> lastfmId (transform_all B K ts ! k)) \<longrightarrow>
      (\<exists>r coll'. syncScrobbles B E F K C coll = Some (Inr r, coll', C') \<and> 0 < synced r \<and>
         (\<exists>row\<in>set coll'. scrobbledAt row = Some (parse_now K k) \<and>
             trackTitle row = (case name (ts ! k) of Text n \<Rightarrow> Some n | _ \<Rightarrow> None) \<and>
             artistName row = getArtistName (ts ! k))))"
proof -
  have p: "parseDate B now None = Some now"
    by (simp add: parseDate_def)
  have w: "\<exists>r coll'. syncScrobbles B E F K C coll = Some (Inr r, coll', C') \<and> 0 < synced r \<and>
         (\<exists>row\<in>set coll'. scrobbledAt row = Some (parse_now K k) \<and>
             trackTitle row = (case name (ts ! k) of Text n \<Rightarrow> Some n | _ \<Rightarrow> None) \<and>
             artistName row = getArtistName (ts ! k))"
    if f: "index_fault F = None" "find_fault F = None" "latestDate coll = Some ms"
      and n: "newScrobbles B E K C ms = Some (Inr ts, C')"
      and k: "k < length ts" and d: "date (ts ! k) = None" and u: "update_fault F k = None"
      and new: "lastfmId (transform_all B K ts ! k) \<notin> lastfmId ` set coll"
      and first: "\<forall>j<k. lastfmId (transform_all B K ts ! j) \<noteq>
                         lastfmId (transform_all B K ts ! k)"
  proof -
    obtain m c2 where l: "upsert_loop F 0 (transform_all B K ts) 0 coll = (m, c2)"
      by (cases "upsert_loop F 0 (transform_all B K ts) 0 coll") auto
    from k have "ts \<noteq> []" by auto
    with f n l have s: "syncScrobbles B E F K C coll =
        Some (Inr \<lparr>synced = m, error = None\<rparr>, c2, C')"
      by (simp add: syncScrobbles_def)
    from k have k': "k < length (transform_all B K ts)"
      by (simp add: length_transform_all)
    from u have u': "update_fault F (0 + k) = None" by simp
    from upsert_loop_writes_new[OF l k' u' new first] obtain row where
      row: "0 < m" "row \<in> set c2" "same_key (transform_all B K ts ! k) row"
      by auto
    from row(3) nth_transform_all[OF k, of B K]
      transform_undated[OF d, of B "parse_now K k" "synced_now K k"]
    have "scrobbledAt row = Some (parse_now K k) \<and>
          trackTitle row = (case name (ts ! k) of Text n \<Rightarrow> Some n | _ \<Rightarrow> None) \<and>
          artistName row = getArtistName (ts ! k)"
      by (simp add: same_key_def)
    with s row(1,2) show ?thesis by auto
  qed
  show ?thesis
    apply (intro conjI impI)
    subgoal by (rule p)
    subgoal using transform_undated[of s B tparse tsync] by simp
    subgoal using transform_undated[of s B tparse tsync] by simp
    subgoal using transform_undated[of s B tparse tsync] by simp
    subgoal by (elim conjE) (rule w)
    done
qed

lemma ex_undated_fetch:
  "\<exists>C1. newScrobbles ex_builtins ex_env_undated ex_clocks ex_client 0 =
          Some (Inr [ex_undated], C1)"
proof -
  have t: "attr_nowplaying ex_undated = None"
    by (simp add: ex_undated_def)
  have "fst (getAllRecentTracks ex_builtins ex_env_undated (fetch_now ex_clocks) ex_client 10) =
          Inr [ex_undated]"
    by (simp add: getAllRecentTracks_def getAllRecentTracks_loop.simps ex_client_def
        getRecentTracks_def fetch_def new_client_def ex_env_undated_def ex_response_undated_def
        ex_builtins_def ex_clocks_def scrobbledTracks_def page_tracks_def totalPages_def
        truthy_def string_of_nat.simps digit_char_def Let_def t)
  then obtain C1 where
    "getAllRecentTracks ex_builtins ex_env_undated (fetch_now ex_clocks) ex_client 10 =
       (Inr [ex_undated], C1)"
    by (cases "getAllRecentTracks ex_builtins ex_env_undated (fetch_now ex_clocks) ex_client 10")
       auto
  then show ?thesis by (simp add: newScrobbles_def)
qed

theorem missing_date_is_now_witness:
  "date ex_undated = None \<and>
   (\<exists>r coll' C1. syncScrobbles ex_builtins ex_env_undated ex_faults ex_clocks ex_client [] =
       Some (Inr r, coll', C1) \<and> 0 < synced r \<and>
      (\<exists>row\<in>set coll'. scrobbledAt row = Some 1700000600000 \<and>
          trackTitle row = Some ''Undated'' \<and> artistName row = ''Band''))"
proof -
  from ex_undated_fetch obtain C1 where
    n: "newScrobbles ex_builtins ex_env_undated ex_clocks ex_client 0 =
          Some (Inr [ex_undated], C1)" ..
  have d: "date ex_undated = None" "name ex_undated = Text ''Undated''"
    "getArtistName ex_undated = ''Band''"
    by (simp_all add: ex_undated_def)
  have k: "parse_now ex_clocks 0 = 1700000600000"
    by (simp add: ex_clocks_def)
  have h: "index_fault ex_faults = None \<and> find_fault ex_faults = None \<and>
    latestDate [] = Some 0 \<and>
    newScrobbles ex_builtins ex_env_undated ex_clocks ex_client 0 = Some (Inr [ex_undated], C1) \<and>
    0 < length [ex_undated] \<and> date ([ex_undated] ! 0) = None \<and> update_fault ex_faults 0 = None \<and>
    lastfmId (transform_all ex_builtins ex_clocks [ex_undated] ! 0) \<notin> lastfmId ` set [] \<and>
    (\<forall>j<0. lastfmId (transform_all ex_builtins ex_clocks [ex_undated] ! j) \<noteq>
            lastfmId (transform_all ex_builtins ex_clocks [ex_undated] ! 0))"
    using n d by (simp add: ex_faults_def latestDate_def)
  from missing_date_is_now[where B = ex_builtins and E = ex_env_undated and F = ex_faults
      and K = ex_clocks and C = ex_client and coll = "[]" and ms = 0 and ts = "[ex_undated]"
      and C' = C1 and k = 0 and s = ex_undated and now = 0 and tparse = 0 and tsync = 0,
      THEN conjunct2, THEN conjunct2, rule_format, OF h]
  obtain r coll' where
    run: "syncScrobbles ex_builtins ex_env_undated ex_faults ex_clocks ex_client [] =
            Some (Inr r, coll', C1) \<and> 0 < synced r \<and>
          (\<exists>row\<in>set coll'. scrobbledAt row = Some (parse_now ex_clocks 0) \<and>
             trackTitle row = (case name ([ex_undated] ! 0) of Text n \<Rightarrow> Some n | _ \<Rightarrow> None) \<and>
             artistName row = getArtistName ([ex_undated] ! 0))"
    by blast
  then have "syncScrobbles ex_builtins ex_env_undated ex_faults ex_clocks ex_client [] =
            Some (Inr r, coll', C1) \<and> 0 < synced r \<and>
          (\<exists>row\<in>set coll'. scrobbledAt row = Some 1700000600000 \<and>
             trackTitle row = Some ''Undated'' \<and> artistName row = ''Band'')"
    using d k by simp
  then have "\<exists>r coll' C1. syncScrobbles ex_builtins ex_env_undated ex_faults ex_clocks ex_client [] =
       Some (Inr r, coll', C1) \<and> 0 < synced r \<and>
      (\<exists>row\<in>set coll'. scrobbledAt row = Some 1700000600000 \<and>
          trackTitle row = Some ''Undated'' \<and> artistName row = ''Band'')"
    by (intro exI[where x = r] exI[where x = coll'] exI[where x = C1])
  with d(1) show ?thesis by (intro conjI)
qed

section \<open>Overlapping cycles\<close>

lemma sched_run_admin:
  "in_flight (sched_run s (replicate n AdminTrigger)) = in_flight s + n"
  unfolding sched_run_def
  by (induction n arbitrary: s) simp_all

text \<open>
  Claim C3, as the code has it.  There is no single-flight guard: the on-demand
  trigger, the interval tick (while the interval is set, or while an interval
  has leaked) and the initial timeout (while one is pending) each start a cycle
  whatever is in flight, so \<open>n\<close> triggers without a completion leave \<open>n\<close> more
  cycles in flight.
\<close>

theorem triggers_never_dropped:
  "in_flight (sched_step s AdminTrigger) = in_flight s + 1 \<and>
   (syncInterval s \<longrightarrow> in_flight (sched_step s IntervalTick) = in_flight s + 1) \<and>
   (0 < leaked s \<longrightarrow> in_flight (sched_step s IntervalTick) = in_flight s + 1) \<and>
   (0 < initial_pending s \<longrightarrow> in_flight (sched_step s InitialTimeout) = in_flight s + 1) \<and>
   in_flight (sched_run s (replicate n AdminTrigger)) = in_flight s + n"
  using sched_run_admin[of s n] by simp

theorem triggers_never_dropped_witness:
  "syncInterval (sched_step scheduler_init StartSync) \<and>
   0 < initial_pending (sched_step scheduler_init StartSync) \<and>
   0 < leaked (sched_step (sched_step scheduler_init StartSync) StartSync) \<and>
   in_flight (sched_step (sched_step (sched_step scheduler_init StartSync) InitialTimeout)
      IntervalTick) = 2 \<and>
   in_flight (sched_step
      (sched_step (sched_step (sched_step scheduler_init StartSync) StartSync) StopSync)
      IntervalTick) = 1 \<and>
   in_flight (sched_run (sched_step scheduler_init StartSync) (replicate 3 AdminTrigger)) = 3"
proof -
  have a: "syncInterval (sched_step scheduler_init StartSync)"
    and b: "0 < initial_pending (sched_step scheduler_init StartSync)"
    and c: "in_flight (sched_step scheduler_init StartSync) = 0"
    by (simp_all add: scheduler_init_def)
  have d: "syncInterval (sched_step (sched_step scheduler_init StartSync) InitialTimeout)"
    by (simp add: scheduler_init_def)
  have e: "0 < leaked (sched_step (sched_step scheduler_init StartSync) StartSync)"
    and f: "0 < leaked (sched_step (sched_step (sched_step scheduler_init StartSync) StartSync)
                 StopSync)"
    and g: "in_flight (sched_step (sched_step (sched_step scheduler_init StartSync) StartSync)
                 StopSync) = 0"
    by (simp_all add: scheduler_init_def)
  from triggers_never_dropped[where s = "sched_step scheduler_init StartSync" and n = 3]
       triggers_never_dropped[where s = "sched_step (sched_step scheduler_init StartSync)
           InitialTimeout" and n = 0]
       triggers_never_dropped[where s = "sched_step (sched_step (sched_step scheduler_init
           StartSync) StartSync) StopSync" and n = 0]
       a b c d e f g
  show ?thesis by simp
qed

text \<open>
  After \<open>startSync\<close>, one interval tick and one on-demand trigger with no
  completion in between leave two cycles in flight.
\<close>

theorem two_cycles_in_flight:
  "in_flight (sched_run scheduler_init [StartSync, IntervalTick, AdminTrigger]) = 2"
  by (simp add: sched_run_def scheduler_init_def)

end
